theory Spec2Isabelle
  imports Main
begin

section \<open>Errors and panics\<close>

text \<open>
  A Go \<open>error\<close> value built by \<open>errors.New\<close> or \<open>fmt.Errorf\<close> is its message.
  A run-time panic is a value of its own: a function of the source that can panic returns
  \<open>panic + 'a\<close>, with \<open>Inl\<close> for the panic.
\<close>

datatype error = errorString string

datatype panic = IndexOutOfRange | SliceBoundsOutOfRange | TypeAssertionFailed | NilFunctionCall

section \<open>Positional arguments (context.go, type Args)\<close>

type_synonym Args = "string list"

text \<open>
  \<^verbatim>\<open>func (a Args) Get(n int) string { if len(a) > n { return a[n] }; return "" }\<close>
  The index expression \<open>a[n]\<close> panics when \<open>n\<close> is negative; the guard \<open>len(a) > n\<close>
  does not exclude that.
\<close>

definition Get :: "Args \<Rightarrow> int \<Rightarrow> panic + string" where
  "Get a n =
     (if int (length a) > n
      then (if 0 \<le> n then Inr (a ! nat n) else Inl IndexOutOfRange)
      else Inr '''')"

definition First :: "Args \<Rightarrow> panic + string" where
  "First a = Get a 0"

definition Tail :: "Args \<Rightarrow> string list" where
  "Tail a = (if length a \<ge> 2 then drop 1 a else [])"

definition Present :: "Args \<Rightarrow> bool" where
  "Present a = (length a \<noteq> 0)"

section \<open>The Go standard library, as far as the code calls it\<close>

subsection \<open>strings\<close>

text \<open>
  \<open>strings.Split(s, ",")\<close> cuts \<open>s\<close> at every separator and always returns at least one
  piece (\<open>Split("", ",")\<close> is \<open>[""]\<close>). The code only splits at a one-byte separator.
\<close>

fun Split :: "string \<Rightarrow> char \<Rightarrow> string list" where
  "Split [] sep = [[]]"
| "Split (c # cs) sep =
     (if c = sep then [] # Split cs sep
      else (case Split cs sep of p # ps \<Rightarrow> (c # p) # ps | [] \<Rightarrow> [[c]]))"

text \<open>
  \<open>strings.TrimSpace\<close> removes leading and trailing white space. The strings of this
  development are byte strings; the six ASCII white-space bytes are trimmed (tab, line
  feed, vertical tab, form feed, carriage return, space). Flag names are taken to be
  ASCII: the multi-byte white space of Unicode is not decoded.
\<close>

definition isSpace :: "char \<Rightarrow> bool" where
  "isSpace c = (c \<in> {CHR 0x09, CHR 0x0A, CHR 0x0B, CHR 0x0C, CHR 0x0D, CHR '' ''})"

definition TrimSpace :: "string \<Rightarrow> string" where
  "TrimSpace s = rev (dropWhile isSpace (rev (dropWhile isSpace s)))"

subsection \<open>strconv\<close>

text \<open>
  \<open>strconv.ParseBool\<close> accepts exactly twelve spellings; anything else is an error
  (\<open>None\<close>).
\<close>

definition ParseBool :: "string \<Rightarrow> bool option" where
  "ParseBool str =
     (if str \<in> {''1'', ''t'', ''T'', ''TRUE'', ''true'', ''True''} then Some True
      else if str \<in> {''0'', ''f'', ''F'', ''FALSE'', ''false'', ''False''} then Some False
      else None)"

definition FormatBool :: "bool \<Rightarrow> string" where
  "FormatBool b = (if b then ''true'' else ''false'')"

text \<open>
  \<open>strconv.Atoi\<close>: an optional sign, then one or more decimal digits, and a value that
  fits Go's 64-bit \<open>int\<close>; anything else is an error (\<open>None\<close>).
\<close>

definition isDigit :: "char \<Rightarrow> bool" where
  "isDigit c = (c \<in> set ''0123456789'')"

definition digitVal :: "char \<Rightarrow> int" where
  "digitVal c = int (of_char c) - 48"

definition decimal :: "string \<Rightarrow> int" where
  "decimal ds = foldl (\<lambda>n c. n * 10 + digitVal c) 0 ds"

definition Atoi :: "string \<Rightarrow> int option" where
  "Atoi s =
     (let neg = (s \<noteq> [] \<and> hd s = CHR ''-'');
          ds = (if s \<noteq> [] \<and> (hd s = CHR ''-'' \<or> hd s = CHR ''+'') then tl s else s)
      in if ds = [] \<or> \<not> list_all isDigit ds then None
         else (let v = (if neg then - decimal ds else decimal ds)
               in if v < - (2 ^ 63) \<or> 2 ^ 63 - 1 < v then None else Some v))"

subsection \<open>flag: values, flags and flag sets\<close>

text \<open>
  A \<open>flag.Value\<close> is an interface with the methods \<open>String()\<close> and \<open>Set(string) error\<close>.
  The code of context.go distinguishes three dynamic types of a value: \<open>*StringSlice\<close> and
  \<open>*IntSlice\<close> (types of this package, declared elsewhere in the package) and everything
  else, which it only reads through \<open>String()\<close> and writes through \<open>Set\<close>.
\<close>

datatype 'o Value = StringSlice "string list" | IntSlice "int list" | OtherValue 'o

text \<open>
  The methods of the interface, dispatched on the value. \<open>Value_Set v s\<close> is the error
  \<open>Set\<close> returns (\<open>None\<close> for nil) with the value the cell holds afterwards. The
  definitions below take the methods as a parameter \<open>V\<close>, so what is proved holds for every
  implementation of the interface.
\<close>

record 'o ValueMethods =
  Value_String :: "'o Value \<Rightarrow> string"
  Value_Set :: "'o Value \<Rightarrow> string \<Rightarrow> error option \<times> 'o Value"

text \<open>
  \<open>flag.Flag\<close>: of its fields the code reads \<open>Name\<close> and \<open>Value\<close>.
\<close>

record 'o flag_Flag =
  Name :: string
  Value :: "'o Value"

text \<open>
  \<open>flag.FlagSet\<close>: \<open>formal\<close> holds the defined flags by name, \<open>actual\<close> the flags that
  have been set, \<open>args\<close> the arguments left after the flags. In Go both maps hold pointers
  to the same \<open>Flag\<close>, stored under its own \<open>Name\<close>; here \<open>formal\<close> maps a name to the
  value cell of that flag and \<open>actual\<close> is the set of names present in Go's \<open>actual\<close> map.
  Every name has a value cell of its own (as \<open>FlagSet.Bool\<close>, \<open>FlagSet.String\<close>, ... allocate
  them).
\<close>

record 'o FlagSet =
  formal :: "string \<rightharpoonup> 'o Value"
  actual :: "string set"
  args :: "string list"

text \<open>\<open>func (f *FlagSet) Lookup(name string) *Flag { return f.formal[name] }\<close>\<close>

definition Lookup :: "'o FlagSet \<Rightarrow> string \<Rightarrow> 'o flag_Flag option" where
  "Lookup fs name = map_option (\<lambda>v. \<lparr>Name = name, Value = v\<rparr>) (formal fs name)"

text \<open>
  \<open>FlagSet.Visit(fn)\<close> calls \<open>fn\<close> on every flag of \<open>actual\<close>. Both callers in context.go
  only record \<open>f.Name\<close> in a \<open>map[string]bool\<close>; \<open>Visit\<close> is the set of names recorded.
\<close>

definition Visit :: "'o FlagSet \<Rightarrow> string set" where
  "Visit fs = actual fs"

text \<open>
  \<^verbatim>\<open>
  func (f *FlagSet) Set(name, value string) error {
      flag, ok := f.formal[name]
      if !ok { return fmt.Errorf("no such flag -%v", name) }
      err := flag.Value.Set(value)
      if err != nil { return err }
      if f.actual == nil { f.actual = make(map[string]*Flag) }
      f.actual[name] = flag
      return nil
  }\<close>
  The value's own \<open>Set\<close> may have changed the cell also when it returns an error.
\<close>

definition FlagSet_Set ::
  "'o ValueMethods \<Rightarrow> 'o FlagSet \<Rightarrow> string \<Rightarrow> string \<Rightarrow> error option \<times> 'o FlagSet" where
  "FlagSet_Set V fs name val =
     (case formal fs name of
        None \<Rightarrow> (Some (errorString (''no such flag -'' @ name)), fs)
      | Some v \<Rightarrow>
          (case Value_Set V v val of
             (Some err, v') \<Rightarrow> (Some err, fs\<lparr>formal := (formal fs)(name \<mapsto> v')\<rparr>)
           | (None, v') \<Rightarrow>
               (None, fs\<lparr>formal := (formal fs)(name \<mapsto> v'), actual := insert name (actual fs)\<rparr>)))"

section \<open>Typed lookups (context.go)\<close>

definition lookupInt :: "'o ValueMethods \<Rightarrow> string \<Rightarrow> 'o FlagSet \<Rightarrow> int" where
  "lookupInt V name fs =
     (case Lookup fs name of
        None \<Rightarrow> 0
      | Some f \<Rightarrow> (case Atoi (Value_String V (Value f)) of None \<Rightarrow> 0 | Some val \<Rightarrow> val))"

text \<open>
  \<open>strconv.ParseFloat\<close> is a parameter: floating-point parsing is not modelled, only that
  it returns a number or an error.
\<close>

definition lookupFloat64 ::
  "(string \<Rightarrow> 'f option) \<Rightarrow> 'o ValueMethods \<Rightarrow> string \<Rightarrow> 'o FlagSet \<Rightarrow> 'f::zero" where
  "lookupFloat64 ParseFloat V name fs =
     (case Lookup fs name of
        None \<Rightarrow> 0
      | Some f \<Rightarrow> (case ParseFloat (Value_String V (Value f)) of None \<Rightarrow> 0 | Some val \<Rightarrow> val))"

definition lookupString :: "'o ValueMethods \<Rightarrow> string \<Rightarrow> 'o FlagSet \<Rightarrow> string" where
  "lookupString V name fs =
     (case Lookup fs name of None \<Rightarrow> '''' | Some f \<Rightarrow> Value_String V (Value f))"

text \<open>
  \<open>(f.Value.(*StringSlice)).Value()\<close> is a type assertion without the comma-ok form: it
  panics when the flag's value has another dynamic type. A nil slice is the empty list.
\<close>

definition lookupStringSlice :: "string \<Rightarrow> 'o FlagSet \<Rightarrow> panic + string list" where
  "lookupStringSlice name fs =
     (case Lookup fs name of
        None \<Rightarrow> Inr []
      | Some f \<Rightarrow> (case Value f of StringSlice xs \<Rightarrow> Inr xs | _ \<Rightarrow> Inl TypeAssertionFailed))"

definition lookupIntSlice :: "string \<Rightarrow> 'o FlagSet \<Rightarrow> panic + int list" where
  "lookupIntSlice name fs =
     (case Lookup fs name of
        None \<Rightarrow> Inr []
      | Some f \<Rightarrow> (case Value f of IntSlice xs \<Rightarrow> Inr xs | _ \<Rightarrow> Inl TypeAssertionFailed))"

definition lookupBool :: "'o ValueMethods \<Rightarrow> string \<Rightarrow> 'o FlagSet \<Rightarrow> bool" where
  "lookupBool V name fs =
     (case Lookup fs name of
        None \<Rightarrow> False
      | Some f \<Rightarrow> (case ParseBool (Value_String V (Value f)) of None \<Rightarrow> False | Some val \<Rightarrow> val))"

definition lookupBoolT :: "'o ValueMethods \<Rightarrow> string \<Rightarrow> 'o FlagSet \<Rightarrow> bool" where
  "lookupBoolT V name fs =
     (case Lookup fs name of
        None \<Rightarrow> False
      | Some f \<Rightarrow> (case ParseBool (Value_String V (Value f)) of None \<Rightarrow> True | Some val \<Rightarrow> val))"

section \<open>Alias normalisation (context.go)\<close>

text \<open>
  Modelled from the spec: the interface \<open>Flag\<close> and its implementations (the flag
  definitions, "FlagSpec" in the spec) are declared elsewhere in the package. app.go
  builds \<open>BoolFlag{"version, v", "print the version"}\<close>, a struct of a name and a usage
  text; every other definition is \<open>OtherFlag\<close>, with its comma-separated names and the rest
  of its fields (kind, default, usage) as one value \<open>'d\<close>. The code of app.go and context.go reads a
  definition through \<open>getName()\<close> and compares definitions with \<open>==\<close> only.
\<close>

datatype 'd Flag = BoolFlag string string | OtherFlag string 'd

text \<open>
  Modelled from the spec: \<open>getName\<close> is declared with the flag definitions; it returns the
  "names" attribute of a FlagSpec, the comma-separated alias list.
\<close>

fun getName :: "'d Flag \<Rightarrow> string" where
  "getName (BoolFlag name usage) = name"
| "getName (OtherFlag name d) = name"

text \<open>
  \<^verbatim>\<open>
  func copyFlag(name string, ff *flag.Flag, set *flag.FlagSet) {
      switch ff.Value.(type) {
      case *StringSlice:
      default:
          set.Set(name, ff.Value.String())
      }
  }\<close>
  The error of \<open>set.Set\<close> is dropped.
\<close>

definition copyFlag :: "'o ValueMethods \<Rightarrow> string \<Rightarrow> 'o flag_Flag \<Rightarrow> 'o FlagSet \<Rightarrow> 'o FlagSet" where
  "copyFlag V name ff fs =
     (case Value ff of
        StringSlice xs \<Rightarrow> fs
      | _ \<Rightarrow> snd (FlagSet_Set V fs name (Value_String V (Value ff))))"

definition mapS :: "string list \<Rightarrow> (string \<Rightarrow> string) \<Rightarrow> string list" where
  "mapS sl f = map f sl"

text \<open>
  The local variable \<open>parts\<close> of \<open>normalizeFlags\<close>:
  \<open>mapS(strings.Split(f.getName(), ","), strings.TrimSpace)\<close>.
\<close>

definition parts :: "'d Flag \<Rightarrow> string list" where
  "parts f = mapS (Split (getName f) CHR '','') TrimSpace"

text \<open>
  The first inner loop of \<open>normalizeFlags\<close>, with the variable \<open>ff\<close> as an argument
  (\<open>None\<close> is nil):
  \<^verbatim>\<open>
  for _, name := range parts {
      if visited[name] {
          if ff != nil {
              return errors.New("Cannot use two forms of the same flag: " + name + " " + ff.Name)
          }
          ff = set.Lookup(name)
      }
  }\<close>
\<close>

fun findSet ::
  "string set \<Rightarrow> 'o FlagSet \<Rightarrow> string list \<Rightarrow> 'o flag_Flag option \<Rightarrow> error + 'o flag_Flag option" where
  "findSet visited fs [] ff = Inr ff"
| "findSet visited fs (name # names) ff =
     (if name \<in> visited
      then (case ff of
              Some g \<Rightarrow> Inl (errorString (''Cannot use two forms of the same flag: '' @ name @ '' '' @ Name g))
            | None \<Rightarrow> findSet visited fs names (Lookup fs name))
      else findSet visited fs names ff)"

text \<open>
  The second inner loop:
  \<^verbatim>\<open>for _, name := range parts { if !visited[name] { copyFlag(name, ff, set) } }\<close>
  In Go \<open>ff\<close> points to the flag of a visited name and \<open>copyFlag\<close> writes flags of names
  that are not visited, so the flag read through \<open>ff\<close> is the one \<open>Lookup\<close> returned.
\<close>

fun copyAll ::
  "'o ValueMethods \<Rightarrow> string set \<Rightarrow> 'o flag_Flag \<Rightarrow> string list \<Rightarrow> 'o FlagSet \<Rightarrow> 'o FlagSet" where
  "copyAll V visited ff [] fs = fs"
| "copyAll V visited ff (name # names) fs =
     copyAll V visited ff names (if name \<notin> visited then copyFlag V name ff fs else fs)"

text \<open>
  The loop over the flag definitions. \<open>visited\<close> is computed once, before the loop. The
  result is the error returned (\<open>None\<close> for nil) and the flag set as the call leaves it.
\<close>

fun normalizeLoop ::
  "'o ValueMethods \<Rightarrow> string set \<Rightarrow> 'd Flag list \<Rightarrow> 'o FlagSet \<Rightarrow> error option \<times> 'o FlagSet" where
  "normalizeLoop V visited [] fs = (None, fs)"
| "normalizeLoop V visited (f # flags) fs =
     (if length (parts f) = 1 then normalizeLoop V visited flags fs
      else (case findSet visited fs (parts f) None of
              Inl err \<Rightarrow> (Some err, fs)
            | Inr None \<Rightarrow> normalizeLoop V visited flags fs
            | Inr (Some ff) \<Rightarrow> normalizeLoop V visited flags (copyAll V visited ff (parts f) fs)))"

definition normalizeFlags ::
  "'o ValueMethods \<Rightarrow> 'd Flag list \<Rightarrow> 'o FlagSet \<Rightarrow> error option \<times> 'o FlagSet" where
  "normalizeFlags V flags fs = normalizeLoop V (Visit fs) flags fs"

section \<open>The values of the standard flag package\<close>

text \<open>
  The values \<open>FlagSet.Bool\<close> and \<open>FlagSet.String\<close> create, with their methods:
  \<^verbatim>\<open>
  func (b *boolValue) Set(s string) error {
      v, err := strconv.ParseBool(s)
      if err != nil { err = errParse }
      *b = boolValue(v)
      return err
  }
  func (b *boolValue) String() string { return strconv.FormatBool(bool(*b)) }
  func (s *stringValue) Set(val string) error { *s = stringValue(val); return nil }
  func (s *stringValue) String() string { return string(*s) }\<close>
\<close>

datatype stdValue = boolValue bool | stringValue string

fun natDigits :: "nat \<Rightarrow> string" where
  "natDigits n =
     (if n < 10 then [char_of (48 + n)] else natDigits (n div 10) @ [char_of (48 + n mod 10)])"

definition Itoa :: "int \<Rightarrow> string" where
  "Itoa i = (if i < 0 then CHR ''-'' # natDigits (nat (- i)) else natDigits (nat i))"

fun joinSpace :: "string list \<Rightarrow> string" where
  "joinSpace [] = []"
| "joinSpace [x] = x"
| "joinSpace (x # y # ys) = x @ '' '' @ joinSpace (y # ys)"

text \<open>
  Modelled from the spec: the methods of \<open>StringSlice\<close> and \<open>IntSlice\<close> are declared
  elsewhere in the package, and the spec only names the two kinds (string-list and
  integer-list). Here \<open>Set\<close> appends the element given (an integer list refuses what
  \<open>Atoi\<close> refuses) and \<open>String\<close> is Go's rendering of a slice, \<open>[a b c]\<close>. The theorems on
  \<open>normalizeFlags\<close> hold for every \<open>V\<close>; these methods only complete \<open>stdMethods\<close>, the
  instance the concrete evaluations use.
\<close>

fun std_String :: "stdValue Value \<Rightarrow> string" where
  "std_String (OtherValue (boolValue b)) = FormatBool b"
| "std_String (OtherValue (stringValue s)) = s"
| "std_String (StringSlice xs) = ''['' @ joinSpace xs @ '']''"
| "std_String (IntSlice ns) = ''['' @ joinSpace (map Itoa ns) @ '']''"

fun std_Set :: "stdValue Value \<Rightarrow> string \<Rightarrow> error option \<times> stdValue Value" where
  "std_Set (OtherValue (boolValue b)) s =
     (case ParseBool s of
        None \<Rightarrow> (Some (errorString ''parse error''), OtherValue (boolValue False))
      | Some v \<Rightarrow> (None, OtherValue (boolValue v)))"
| "std_Set (OtherValue (stringValue x)) s = (None, OtherValue (stringValue s))"
| "std_Set (StringSlice xs) s = (None, StringSlice (xs @ [s]))"
| "std_Set (IntSlice ns) s =
     (case Atoi s of
        None \<Rightarrow> (Some (errorString ''invalid syntax''), IntSlice ns)
      | Some n \<Rightarrow> (None, IntSlice (ns @ [n])))"

definition stdMethods :: "stdValue ValueMethods" where
  "stdMethods = \<lparr>Value_String = std_String, Value_Set = std_Set\<rparr>"

section \<open>Context (context.go)\<close>

text \<open>
  \<open>Context\<close> holds pointers to the local and the global flag set and the memoised table
  \<open>setFlags\<close> (\<open>None\<close> while the map is nil). The accessor methods \<open>c.Int\<close>, \<open>c.Bool\<close>, ...
  are \<open>Context_Int\<close>, \<open>Context_Bool\<close>, ... here. Its fields \<open>App\<close> and \<open>Command\<close> are not read by
  any function of context.go or by \<open>App.Run\<close> and are left out. The flag sets are taken to
  be non-nil, as every \<open>NewContext\<close> call of app.go passes them.
\<close>

record 'o Context =
  flagSet :: "'o FlagSet"
  globalSet :: "'o FlagSet"
  setFlags :: "(string \<rightharpoonup> bool) option"

definition NewContext :: "'o FlagSet \<Rightarrow> 'o FlagSet \<Rightarrow> 'o Context" where
  "NewContext fs global = \<lparr>flagSet = fs, globalSet = global, setFlags = None\<rparr>"

definition Context_Int :: "'o ValueMethods \<Rightarrow> 'o Context \<Rightarrow> string \<Rightarrow> int" where
  "Context_Int V c name = lookupInt V name (flagSet c)"

definition Context_Float64 ::
  "(string \<Rightarrow> 'f option) \<Rightarrow> 'o ValueMethods \<Rightarrow> 'o Context \<Rightarrow> string \<Rightarrow> 'f::zero" where
  "Context_Float64 ParseFloat V c name = lookupFloat64 ParseFloat V name (flagSet c)"

definition Context_Bool :: "'o ValueMethods \<Rightarrow> 'o Context \<Rightarrow> string \<Rightarrow> bool" where
  "Context_Bool V c name = lookupBool V name (flagSet c)"

definition Context_BoolT :: "'o ValueMethods \<Rightarrow> 'o Context \<Rightarrow> string \<Rightarrow> bool" where
  "Context_BoolT V c name = lookupBoolT V name (flagSet c)"

definition Context_String :: "'o ValueMethods \<Rightarrow> 'o Context \<Rightarrow> string \<Rightarrow> string" where
  "Context_String V c name = lookupString V name (flagSet c)"

definition Context_StringSlice :: "'o Context \<Rightarrow> string \<Rightarrow> panic + string list" where
  "Context_StringSlice c name = lookupStringSlice name (flagSet c)"

definition Context_IntSlice :: "'o Context \<Rightarrow> string \<Rightarrow> panic + int list" where
  "Context_IntSlice c name = lookupIntSlice name (flagSet c)"

definition Context_GlobalInt :: "'o ValueMethods \<Rightarrow> 'o Context \<Rightarrow> string \<Rightarrow> int" where
  "Context_GlobalInt V c name = lookupInt V name (globalSet c)"

definition Context_GlobalBool :: "'o ValueMethods \<Rightarrow> 'o Context \<Rightarrow> string \<Rightarrow> bool" where
  "Context_GlobalBool V c name = lookupBool V name (globalSet c)"

definition Context_GlobalString :: "'o ValueMethods \<Rightarrow> 'o Context \<Rightarrow> string \<Rightarrow> string" where
  "Context_GlobalString V c name = lookupString V name (globalSet c)"

definition Context_GlobalStringSlice :: "'o Context \<Rightarrow> string \<Rightarrow> panic + string list" where
  "Context_GlobalStringSlice c name = lookupStringSlice name (globalSet c)"

definition Context_GlobalIntSlice :: "'o Context \<Rightarrow> string \<Rightarrow> panic + int list" where
  "Context_GlobalIntSlice c name = lookupIntSlice name (globalSet c)"

text \<open>
  \<^verbatim>\<open>
  func (c *Context) IsSet(name string) bool {
      if c.setFlags == nil {
          c.setFlags = make(map[string]bool)
          c.flagSet.Visit(func(f *flag.Flag) { c.setFlags[f.Name] = true })
      }
      return c.setFlags[name] == true
  }\<close>
  The call returns its answer and the context as it leaves it.
\<close>

definition visitedTable :: "'o FlagSet \<Rightarrow> (string \<rightharpoonup> bool)" where
  "visitedTable fs = (\<lambda>name. if name \<in> Visit fs then Some True else None)"

definition IsSet :: "'o Context \<Rightarrow> string \<Rightarrow> bool \<times> 'o Context" where
  "IsSet c name =
     (case setFlags c of
        None \<Rightarrow> (visitedTable (flagSet c) name = Some True,
                 c\<lparr>setFlags := Some (visitedTable (flagSet c))\<rparr>)
      | Some m \<Rightarrow> (m name = Some True, c))"

text \<open>A sequence of \<open>IsSet\<close> calls on one context: the context after the last call.\<close>

fun IsSet_calls :: "'o Context \<Rightarrow> string list \<Rightarrow> 'o Context" where
  "IsSet_calls c [] = c"
| "IsSet_calls c (name # names) = IsSet_calls (snd (IsSet c name)) names"

definition Context_Args :: "'o Context \<Rightarrow> Args" where
  "Context_Args c = args (flagSet c)"

section \<open>The application (app.go)\<close>

text \<open>
  Of \<open>App\<close> the fields \<open>Run\<close> reads: \<open>Name\<close> (here \<open>App_Name\<close>), \<open>Commands\<close>, \<open>Flags\<close>, the
  optional hook \<open>Before\<close> and the default action \<open>Action\<close> (\<open>None\<close> is a nil function). A
  hook or an action is a function of the context; what it prints or changes elsewhere is
  not modelled, and it is taken not to modify the application it runs in.
\<close>

record ('c, 'd, 'o) App =
  App_Name :: string
  Commands :: "'c list"
  Flags :: "'d Flag list"
  Before :: "('o Context \<Rightarrow> error option) option"
  Action :: "('o Context \<Rightarrow> unit) option"

text \<open>
  What \<open>App.Run\<close> calls and app.go and context.go do not define is a parameter of the model:
  the methods of the flag values; the type \<open>Command\<close> (here any type \<open>'c\<close>) with its field
  \<open>Name\<close>, its methods \<open>HasName\<close> and \<open>Run\<close> and the package variable \<open>helpCommand\<close>;
  \<open>flagSet(name, flags)\<close>, which builds the flag set of the definitions; the token parser
  \<open>FlagSet.Parse\<close>, which returns its error and the flag set as it leaves it; and
  \<open>checkHelp\<close> and \<open>checkVersion\<close>, which report whether they handled the run.
\<close>

record ('c, 'd, 'o) Package =
  methods :: "'o ValueMethods"
  helpCommand :: 'c
  Command_Name :: "'c \<Rightarrow> string"
  HasName :: "'c \<Rightarrow> string \<Rightarrow> bool"
  Command_Run :: "'c \<Rightarrow> 'o Context \<Rightarrow> error option"
  newFlagSet :: "string \<Rightarrow> 'd Flag list \<Rightarrow> 'o FlagSet"
  Parse :: "'o FlagSet \<Rightarrow> string list \<Rightarrow> error option \<times> 'o FlagSet"
  checkHelp :: "'o Context \<Rightarrow> bool"
  checkVersion :: "'o Context \<Rightarrow> bool"

text \<open>
  What a run does besides returning, in order: the call of \<open>flagSet\<close> with the flag
  definitions it is given, the lines printed, the help text rendered, the answers of
  \<open>checkHelp\<close> and \<open>checkVersion\<close>, and the calls of the hook, of a command and of the
  default action.
\<close>

datatype ('c, 'd) event =
  CallFlagSet "'d Flag list" | Println string | ShowAppHelp | CheckHelp bool | CheckVersion bool
  | CallBefore | RunCommand 'c | CallAction

record ('c, 'd, 'o) RunResult =
  app_after :: "('c, 'd, 'o) App"
  trace :: "('c, 'd) event list"
  returned :: "panic + error option"

definition Error :: "error \<Rightarrow> string" where
  "Error e = (case e of errorString s \<Rightarrow> s)"

text \<open>
  \<^verbatim>\<open>for _, c := range a.Commands { if c.HasName(name) { return &c } }; return nil\<close>
\<close>

definition App_Command :: "('c, 'd, 'o) Package \<Rightarrow> ('c, 'd, 'o) App \<Rightarrow> string \<Rightarrow> 'c option" where
  "App_Command E a name = find (\<lambda>c. HasName E c name) (Commands a)"

text \<open>
  \<^verbatim>\<open>for _, f := range a.Flags { if flag == f { return true } }; return false\<close>
  Go's \<open>==\<close> on two \<open>Flag\<close> interface values holds when they have the same dynamic type and
  equal fields.
\<close>

definition hasFlag :: "('c, 'd, 'o) App \<Rightarrow> 'd Flag \<Rightarrow> bool" where
  "hasFlag a flag = list_ex (\<lambda>f. flag = f) (Flags a)"

definition appendFlag :: "('c, 'd, 'o) App \<Rightarrow> 'd Flag \<Rightarrow> ('c, 'd, 'o) App" where
  "appendFlag a flag = (if \<not> hasFlag a flag then a\<lparr>Flags := Flags a @ [flag]\<rparr> else a)"

text \<open>
  \<open>App.Run\<close>, in the four stages of its body. First the help command and the implicit
  flags are appended (lines 73 to 80):
\<close>

definition Run_register :: "('c, 'd, 'o) Package \<Rightarrow> ('c, 'd, 'o) App \<Rightarrow> ('c, 'd, 'o) App" where
  "Run_register E a =
     (let a1 = (if App_Command E a (Command_Name E (helpCommand E)) = None
                then a\<lparr>Commands := Commands a @ [helpCommand E]\<rparr> else a);
          a2 = appendFlag a1 (BoolFlag ''version, v'' ''print the version'')
      in appendFlag a2 (BoolFlag ''help, h'' ''show help''))"

text \<open>
  Then the arguments after the program name are parsed (lines 83 to 85; \<open>arguments\<close> is
  not empty here) and the flag set is normalised (line 86):
\<close>

definition Run_parse ::
  "('c, 'd, 'o) Package \<Rightarrow> ('c, 'd, 'o) App \<Rightarrow> string list \<Rightarrow> error option \<times> 'o FlagSet" where
  "Run_parse E a arguments =
     Parse E (newFlagSet E (App_Name (Run_register E a)) (Flags (Run_register E a))) (tl arguments)"

definition Run_normalize ::
  "('c, 'd, 'o) Package \<Rightarrow> ('c, 'd, 'o) App \<Rightarrow> string list \<Rightarrow> error option \<times> 'o FlagSet" where
  "Run_normalize E a arguments =
     normalizeFlags (methods E) (Flags (Run_register E a)) (snd (Run_parse E a arguments))"

text \<open>
  The last stage selects a command by the first positional argument or runs the default
  action (lines 119 to 131). \<open>tr\<close> is what the run has done so far.
\<close>

definition Run_dispatch ::
  "('c, 'd, 'o) Package \<Rightarrow> ('c, 'd, 'o) App \<Rightarrow> 'o Context \<Rightarrow> ('c, 'd) event list
     \<Rightarrow> ('c, 'd, 'o) RunResult" where
  "Run_dispatch E a context tr =
     (case (if Present (Context_Args context)
            then (case First (Context_Args context) of
                    Inl p \<Rightarrow> Inl p
                  | Inr name \<Rightarrow> Inr (App_Command E a name))
            else Inr None) of
        Inl p \<Rightarrow> \<lparr>app_after = a, trace = tr, returned = Inl p\<rparr>
      | Inr (Some c) \<Rightarrow>
          \<lparr>app_after = a, trace = tr @ [RunCommand c], returned = Inr (Command_Run E c context)\<rparr>
      | Inr None \<Rightarrow>
          (case Action a of
             None \<Rightarrow> \<lparr>app_after = a, trace = tr, returned = Inl NilFunctionCall\<rparr>
           | Some action \<Rightarrow> \<lparr>app_after = a, trace = tr @ [CallAction], returned = Inr None\<rparr>))"

text \<open>
  The whole of \<open>Run\<close>. \<open>flagSet\<close> is called before \<open>arguments[1:]\<close> is evaluated, which
  panics on an empty argument list.
\<close>

definition Run ::
  "('c, 'd, 'o) Package \<Rightarrow> ('c, 'd, 'o) App \<Rightarrow> string list \<Rightarrow> ('c, 'd, 'o) RunResult" where
  "Run E a arguments =
     (let a' = Run_register E a;
          tr = [CallFlagSet (Flags a')]
      in if arguments = [] then \<lparr>app_after = a', trace = tr, returned = Inl SliceBoundsOutOfRange\<rparr>
         else
           (case Run_normalize E a arguments of
              (Some nerr, fs) \<Rightarrow>
                \<lparr>app_after = a', trace = tr @ [Println (Error nerr), ShowAppHelp, Println ''''],
                 returned = Inr (Some nerr)\<rparr>
            | (None, fs) \<Rightarrow>
                (let context = NewContext fs fs in
                 case fst (Run_parse E a arguments) of
                   Some err \<Rightarrow>
                     \<lparr>app_after = a',
                      trace = tr @ [Println ''Incorrect Usage.'', Println '''', ShowAppHelp, Println ''''],
                      returned = Inr (Some err)\<rparr>
                 | None \<Rightarrow>
                     if checkHelp E context
                     then \<lparr>app_after = a', trace = tr @ [CheckHelp True], returned = Inr None\<rparr>
                     else if checkVersion E context
                     then \<lparr>app_after = a', trace = tr @ [CheckHelp False, CheckVersion True],
                           returned = Inr None\<rparr>
                     else (case Before a' of
                             None \<Rightarrow>
                               Run_dispatch E a' context (tr @ [CheckHelp False, CheckVersion False])
                           | Some before \<Rightarrow>
                               (case before context of
                                  Some err \<Rightarrow>
                                    \<lparr>app_after = a',
                                     trace = tr @ [CheckHelp False, CheckVersion False, CallBefore],
                                     returned = Inr (Some err)\<rparr>
                                | None \<Rightarrow>
                                    Run_dispatch E a' context
                                      (tr @ [CheckHelp False, CheckVersion False, CallBefore]))))))"

text \<open>
  The terminal outcomes of the spec's state machine, read off what a run did: help was
  handled, the version was handled, a command or the default action was called.
\<close>

definition HelpHandled :: "('c, 'd, 'o) RunResult \<Rightarrow> bool" where
  "HelpHandled r = list_ex (\<lambda>e. case e of CheckHelp b \<Rightarrow> b | _ \<Rightarrow> False) (trace r)"

definition VersionHandled :: "('c, 'd, 'o) RunResult \<Rightarrow> bool" where
  "VersionHandled r = list_ex (\<lambda>e. case e of CheckVersion b \<Rightarrow> b | _ \<Rightarrow> False) (trace r)"

definition Dispatched :: "('c, 'd, 'o) RunResult \<Rightarrow> bool" where
  "Dispatched r =
     list_ex (\<lambda>e. case e of RunCommand c \<Rightarrow> True | CallAction \<Rightarrow> True | _ \<Rightarrow> False) (trace r)"

definition HookCalled :: "('c, 'd, 'o) RunResult \<Rightarrow> bool" where
  "HookCalled r = list_ex (\<lambda>e. case e of CallBefore \<Rightarrow> True | _ \<Rightarrow> False) (trace r)"

definition HelpRendered :: "('c, 'd, 'o) RunResult \<Rightarrow> bool" where
  "HelpRendered r = list_ex (\<lambda>e. case e of ShowAppHelp \<Rightarrow> True | _ \<Rightarrow> False) (trace r)"

definition outcomes :: "('c, 'd, 'o) RunResult \<Rightarrow> nat" where
  "outcomes r = length (filter id [HelpHandled r, VersionHandled r, Dispatched r])"

section \<open>Notions the statements use\<close>

text \<open>
  The aliases of a flag definition that were explicitly set, in the order the definition
  names them: the names of \<open>parts\<close> that \<open>visited\<close> holds.
\<close>

definition setAliases :: "string set \<Rightarrow> 'd Flag \<Rightarrow> string list" where
  "setAliases visited f = filter (\<lambda>name. name \<in> visited) (parts f)"

text \<open>The error \<open>normalizeFlags\<close> builds when it meets \<open>name\<close> after \<open>first\<close>.\<close>

definition conflictError :: "string \<Rightarrow> string \<Rightarrow> error" where
  "conflictError name first =
     errorString (''Cannot use two forms of the same flag: '' @ name @ '' '' @ first)"

section \<open>Concrete flag tables\<close>

text \<open>
  Two boolean flag definitions with two names each, as \<open>BoolFlag{"a, b", ""}\<close> and
  \<open>BoolFlag{"c, d", ""}\<close>, and the flag set after parsing \<open>-a -c -d\<close>: every name
  has a boolean cell, and \<open>a\<close>, \<open>c\<close> and \<open>d\<close> were set to true.
\<close>

definition flagAB :: "unit Flag" where
  "flagAB = BoolFlag ''a, b'' []"

definition flagCD :: "unit Flag" where
  "flagCD = BoolFlag ''c, d'' []"

definition parsedACD :: "stdValue FlagSet" where
  "parsedACD =
     \<lparr>formal = [''a'' \<mapsto> OtherValue (boolValue True), ''b'' \<mapsto> OtherValue (boolValue False),
                ''c'' \<mapsto> OtherValue (boolValue True), ''d'' \<mapsto> OtherValue (boolValue True)],
      actual = {''a'', ''c'', ''d''},
      args = []\<rparr>"

text \<open>
  A string-list flag with two names, \<open>"name, n"\<close>, after parsing \<open>-n x\<close>, and a flag with
  the single name \<open>"port"\<close>.
\<close>

definition flagName :: "unit Flag" where
  "flagName = OtherFlag ''name, n'' ()"

definition flagPort :: "unit Flag" where
  "flagPort = OtherFlag ''port'' ()"

definition parsedN :: "stdValue FlagSet" where
  "parsedN =
     \<lparr>formal = [''name'' \<mapsto> StringSlice [], ''n'' \<mapsto> StringSlice [''x''],
                ''port'' \<mapsto> OtherValue (stringValue ''80'')],
      actual = {''n'', ''port''},
      args = []\<rparr>"

text \<open>
  The implicit flag \<open>BoolFlag{"version, v", "print the version"}\<close> of app.go and the flag
  set after parsing \<open>-v\<close>.
\<close>

definition flagVersion :: "unit Flag" where
  "flagVersion = BoolFlag ''version, v'' ''print the version''"

definition parsedV :: "stdValue FlagSet" where
  "parsedV =
     \<lparr>formal = [''version'' \<mapsto> OtherValue (boolValue False), ''v'' \<mapsto> OtherValue (boolValue True)],
      actual = {''v''},
      args = []\<rparr>"

text \<open>
  Modelled from the spec: a package for the concrete runs below, whose parts are declared
  elsewhere. Commands are their names, and \<open>HasName\<close> is an "exact match against one of
  the command's comma-split, trimmed aliases"; help is handled "if the help flag is set"
  and the version "if the version flag is set", read with the global boolean accessor. The
  parser is the one that answers with the error \<open>perr\<close> and the flag set \<open>parsed\<close>,
  whatever it is given.
\<close>

definition demoPackage :: "error option \<Rightarrow> stdValue FlagSet \<Rightarrow> (string, unit, stdValue) Package" where
  "demoPackage perr parsed =
     \<lparr>methods = stdMethods,
      helpCommand = ''help, h'',
      Command_Name = (\<lambda>c. c),
      HasName = (\<lambda>c name. name \<in> set (mapS (Split c CHR '','') TrimSpace)),
      Command_Run = (\<lambda>c context. None),
      newFlagSet = (\<lambda>name flags. \<lparr>formal = Map.empty, actual = {}, args = []\<rparr>),
      Parse = (\<lambda>fs arguments. (perr, parsed)),
      checkHelp = (\<lambda>context. Context_GlobalBool stdMethods context ''help''),
      checkVersion = (\<lambda>context. Context_GlobalBool stdMethods context ''version'')\<rparr>"

definition demoApp :: "(string, unit, stdValue) App" where
  "demoApp = \<lparr>App_Name = ''prog'', Commands = [], Flags = [], Before = None,
              Action = Some (\<lambda>context. ())\<rparr>"

text \<open>
  The flag set of the implicit flags after \<open>-h -v\<close> was parsed, and after \<open>-h\<close> was parsed
  and the parser then stopped at an argument it does not know.
\<close>

definition parsedHV :: "stdValue FlagSet" where
  "parsedHV =
     \<lparr>formal = [''version'' \<mapsto> OtherValue (boolValue False), ''v'' \<mapsto> OtherValue (boolValue True),
                ''help'' \<mapsto> OtherValue (boolValue False), ''h'' \<mapsto> OtherValue (boolValue True)],
      actual = {''v'', ''h''},
      args = []\<rparr>"

definition parsedH :: "stdValue FlagSet" where
  "parsedH =
     \<lparr>formal = [''version'' \<mapsto> OtherValue (boolValue False), ''v'' \<mapsto> OtherValue (boolValue False),
                ''help'' \<mapsto> OtherValue (boolValue False), ''h'' \<mapsto> OtherValue (boolValue True)],
      actual = {''h''},
      args = []\<rparr>"

definition unknownFlag :: error where
  "unknownFlag = errorString ''flag provided but not defined: -bogus''"

text \<open>
  The flag set of the implicit flags after \<open>-h --help\<close> (both forms of one flag), and
  after no flag at all.
\<close>

definition parsedHH :: "stdValue FlagSet" where
  "parsedHH =
     \<lparr>formal = [''version'' \<mapsto> OtherValue (boolValue False), ''v'' \<mapsto> OtherValue (boolValue False),
                ''help'' \<mapsto> OtherValue (boolValue True), ''h'' \<mapsto> OtherValue (boolValue True)],
      actual = {''h'', ''help''},
      args = []\<rparr>"

definition parsedNone :: "stdValue FlagSet" where
  "parsedNone =
     \<lparr>formal = [''version'' \<mapsto> OtherValue (boolValue False), ''v'' \<mapsto> OtherValue (boolValue False),
                ''help'' \<mapsto> OtherValue (boolValue False), ''h'' \<mapsto> OtherValue (boolValue False)],
      actual = {},
      args = []\<rparr>"

definition hookError :: error where
  "hookError = errorString ''not now''"

section \<open>Properties of Args\<close>

text \<open>
  C9. \<open>Tail\<close> of the empty sequence and of a one-element sequence is empty; on two or
  more elements it is the sequence without its first element, in order; the tail of
  \<open>["a","b","c"]\<close> is \<open>["b","c"]\<close>.
\<close>

theorem Tail_spec:
  "Tail [] = []
   \<and> Tail [x] = []
   \<and> (2 \<le> length a \<longrightarrow> Tail a = tl a \<and> (\<forall>i < length a - 1. Tail a ! i = a ! Suc i)
        \<and> length (Tail a) = length a - 1)
   \<and> Tail [''a'', ''b'', ''c''] = [''b'', ''c'']"
  by (simp add: Tail_def drop_Suc nth_tl)

theorem Tail_spec_witness:
  "(2::nat) \<le> length [''x'', ''y''] \<and> Tail [''x'', ''y''] = [''y''] \<and> Tail [''only''] = []"
  using Tail_spec [of "''only''" "[''x'', ''y'']"] by simp

text \<open>
  C10. \<open>Get\<close> returns the n-th element for \<open>0 \<le> n < len(a)\<close> and the empty string for
  \<open>n \<ge> len(a)\<close>; for a negative \<open>n\<close> the guard \<open>len(a) > n\<close> holds and the index
  expression panics. So \<open>Get\<close> returns without a panic exactly when \<open>n \<ge> 0\<close>.
\<close>

theorem Get_total_iff_nonneg:
  "(0 \<le> n \<longrightarrow> Get a n = Inr (if n < int (length a) then a ! nat n else ''''))
   \<and> (n < 0 \<longrightarrow> int (length a) > n \<and> Get a n = Inl IndexOutOfRange)
   \<and> ((\<exists>s. Get a n = Inr s) \<longleftrightarrow> 0 \<le> n)
   \<and> (\<exists>s. First a = Inr s)"
  by (auto simp: Get_def First_def)

theorem Get_total_iff_nonneg_witness:
  "Get [''a'', ''b''] 1 = Inr ''b'' \<and> Get [''a'', ''b''] 2 = Inr ''''
   \<and> Get [''a'', ''b''] (- 1) = Inl IndexOutOfRange \<and> Get [] (- 1) = Inl IndexOutOfRange"
  using Get_total_iff_nonneg [of 1 "[''a'', ''b'']"] Get_total_iff_nonneg [of 2 "[''a'', ''b'']"]
    Get_total_iff_nonneg [of "- 1" "[''a'', ''b'']"] Get_total_iff_nonneg [of "- 1" "[]"]
  by simp

section \<open>Frame properties of the flag-set operations\<close>

lemma Lookup_Some: "formal fs name = Some v \<Longrightarrow> Lookup fs name = Some \<lparr>Name = name, Value = v\<rparr>"
  by (simp add: Lookup_def)

lemma Lookup_None: "formal fs name = None \<Longrightarrow> Lookup fs name = None"
  by (simp add: Lookup_def)

lemma FlagSet_Set_other: "m \<noteq> name \<Longrightarrow> formal (snd (FlagSet_Set V fs name val)) m = formal fs m"
  by (simp add: FlagSet_Set_def split: option.splits prod.splits)

lemma FlagSet_Set_same:
  "formal fs name = Some v \<Longrightarrow>
   formal (snd (FlagSet_Set V fs name val)) name = Some (snd (Value_Set V v val))"
  by (simp add: FlagSet_Set_def split: option.splits prod.splits)

lemma FlagSet_Set_dom: "dom (formal (snd (FlagSet_Set V fs name val))) = dom (formal fs)"
  by (auto simp: FlagSet_Set_def split: option.splits prod.splits if_splits)

lemma FlagSet_Set_actual:
  "actual (snd (FlagSet_Set V fs name val)) =
     (case formal fs name of
        None \<Rightarrow> actual fs
      | Some v \<Rightarrow> (if fst (Value_Set V v val) = None then insert name (actual fs) else actual fs))"
  by (simp add: FlagSet_Set_def split: option.splits prod.splits)

lemma FlagSet_Set_args: "args (snd (FlagSet_Set V fs name val)) = args fs"
  by (simp add: FlagSet_Set_def split: option.splits prod.splits)

lemma copyFlag_other: "m \<noteq> name \<Longrightarrow> formal (copyFlag V name ff fs) m = formal fs m"
  by (simp add: copyFlag_def FlagSet_Set_other split: Value.splits)

lemma copyFlag_dom: "dom (formal (copyFlag V name ff fs)) = dom (formal fs)"
  by (simp add: copyFlag_def FlagSet_Set_dom split: Value.splits)

lemma copyFlag_StringSlice: "Value ff = StringSlice xs \<Longrightarrow> copyFlag V name ff fs = fs"
  by (simp add: copyFlag_def)

lemma copyFlag_same:
  "formal fs name = Some v \<Longrightarrow> \<forall>xs. Value ff \<noteq> StringSlice xs \<Longrightarrow>
   formal (copyFlag V name ff fs) name = Some (snd (Value_Set V v (Value_String V (Value ff))))"
  by (simp add: copyFlag_def FlagSet_Set_same split: Value.splits)

lemma copyFlag_actual_mono: "actual fs \<subseteq> actual (copyFlag V name ff fs)"
  by (auto simp: copyFlag_def FlagSet_Set_actual split: Value.splits option.splits)

lemma copyFlag_actual_new:
  "x \<in> actual (copyFlag V name ff fs) \<Longrightarrow> x \<notin> actual fs \<Longrightarrow> x = name \<and> name \<in> dom (formal fs)"
  by (auto simp: copyFlag_def FlagSet_Set_actual split: Value.splits option.splits if_splits)

lemma copyFlag_actual_same:
  "formal fs name = Some v \<Longrightarrow> \<forall>xs. Value ff \<noteq> StringSlice xs \<Longrightarrow>
   fst (Value_Set V v (Value_String V (Value ff))) = None \<Longrightarrow> name \<in> actual (copyFlag V name ff fs)"
  by (cases "Value ff") (simp_all add: copyFlag_def FlagSet_Set_actual)

lemma copyAll_StringSlice: "Value ff = StringSlice xs \<Longrightarrow> copyAll V visited ff names fs = fs"
  by (induction names arbitrary: fs) (simp_all add: copyFlag_StringSlice)

lemma copyAll_other:
  "m \<in> visited \<or> m \<notin> set names \<Longrightarrow> formal (copyAll V visited ff names fs) m = formal fs m"
proof (induction names arbitrary: fs)
  case Nil
  then show ?case by simp
next
  case (Cons n ns)
  then have keep: "m \<in> visited \<or> m \<notin> set ns" by auto
  show ?case
  proof (cases "n \<in> visited")
    case True
    then show ?thesis using Cons.IH [OF keep] by simp
  next
    case False
    with Cons.prems have "m \<noteq> n" by auto
    then show ?thesis using False Cons.IH [OF keep] by (simp add: copyFlag_other)
  qed
qed

lemma copyAll_dom: "dom (formal (copyAll V visited ff names fs)) = dom (formal fs)"
  by (induction names arbitrary: fs) (simp_all add: copyFlag_dom)

lemma copyAll_actual_mono: "actual fs \<subseteq> actual (copyAll V visited ff names fs)"
proof (induction names arbitrary: fs)
  case Nil
  then show ?case by simp
next
  case (Cons n ns)
  show ?case
    using Cons.IH [of "copyFlag V n ff fs"] Cons.IH [of fs] copyFlag_actual_mono [of fs V n ff]
    by auto
qed

lemma copyAll_actual_new:
  "x \<in> actual (copyAll V visited ff names fs) \<Longrightarrow> x \<notin> actual fs \<Longrightarrow>
   x \<in> set names \<and> x \<notin> visited \<and> x \<in> dom (formal fs)"
proof (induction names arbitrary: fs)
  case Nil
  then show ?case by simp
next
  case (Cons n ns)
  show ?case
  proof (cases "n \<in> visited")
    case True
    with Cons show ?thesis by auto
  next
    case False
    show ?thesis
    proof (cases "x \<in> actual (copyFlag V n ff fs)")
      case True
      with Cons.prems(2) False copyFlag_actual_new [of x V n ff fs] show ?thesis by auto
    next
      case notin: False
      from Cons.prems(1) False have "x \<in> actual (copyAll V visited ff ns (copyFlag V n ff fs))"
        by simp
      from Cons.IH [OF this notin] show ?thesis by (auto simp: copyFlag_dom)
    qed
  qed
qed

lemma copyAll_same:
  "distinct names \<Longrightarrow> b \<in> set names \<Longrightarrow> b \<notin> visited \<Longrightarrow> formal fs b = Some vb \<Longrightarrow>
   \<forall>xs. Value ff \<noteq> StringSlice xs \<Longrightarrow>
   formal (copyAll V visited ff names fs) b = Some (snd (Value_Set V vb (Value_String V (Value ff))))"
proof (induction names arbitrary: fs)
  case Nil
  then show ?case by simp
next
  case (Cons n ns)
  show ?case
  proof (cases "n = b")
    case True
    with Cons.prems have "b \<notin> set ns" by simp
    then have "formal (copyAll V visited ff ns (copyFlag V b ff fs)) b = formal (copyFlag V b ff fs) b"
      by (simp add: copyAll_other)
    with True Cons.prems show ?thesis by (simp add: copyFlag_same)
  next
    case False
    with Cons.prems have "b \<in> set ns" "distinct ns" by auto
    moreover have "formal (if n \<notin> visited then copyFlag V n ff fs else fs) b = Some vb"
      using False Cons.prems(4) by (simp add: copyFlag_other)
    ultimately show ?thesis using Cons.IH Cons.prems(3,5) by simp
  qed
qed

lemma copyAll_marks:
  "b \<in> set names \<Longrightarrow> b \<notin> visited \<Longrightarrow> formal fs b = Some vb \<Longrightarrow> distinct names \<Longrightarrow>
   \<forall>xs. Value ff \<noteq> StringSlice xs \<Longrightarrow>
   fst (Value_Set V vb (Value_String V (Value ff))) = None \<Longrightarrow>
   b \<in> actual (copyAll V visited ff names fs)"
proof (induction names arbitrary: fs)
  case Nil
  then show ?case by simp
next
  case (Cons n ns)
  show ?case
  proof (cases "n = b")
    case True
    have "b \<in> actual (copyFlag V b ff fs)"
      using Cons.prems by (simp add: copyFlag_actual_same)
    then show ?thesis
      using True Cons.prems(2) copyAll_actual_mono [of "copyFlag V b ff fs" V visited ff ns] by auto
  next
    case False
    with Cons.prems have "b \<in> set ns" "distinct ns" by auto
    moreover have "formal (if n \<notin> visited then copyFlag V n ff fs else fs) b = Some vb"
      using False Cons.prems(3) by (simp add: copyFlag_other)
    ultimately show ?thesis using Cons.IH Cons.prems(2,5,6) by simp
  qed
qed

section \<open>The two inner loops\<close>

lemma findSet_Some:
  "findSet visited fs names (Some g) =
     (case filter (\<lambda>n. n \<in> visited) names of
        [] \<Rightarrow> Inr (Some g)
      | b # rest \<Rightarrow> Inl (conflictError b (Name g)))"
  by (induction names) (simp_all add: conflictError_def)

lemma findSet_None:
  "visited \<subseteq> dom (formal fs) \<Longrightarrow>
   findSet visited fs names None =
     (case filter (\<lambda>n. n \<in> visited) names of
        [] \<Rightarrow> Inr None
      | [a] \<Rightarrow> Inr (Lookup fs a)
      | a # b # rest \<Rightarrow> Inl (conflictError b a))"
proof (induction names)
  case Nil
  then show ?case by simp
next
  case (Cons n ns)
  show ?case
  proof (cases "n \<in> visited")
    case True
    with Cons.prems obtain v where v: "formal fs n = Some v" by auto
    show ?thesis
      using True by (simp add: Lookup_Some [OF v] findSet_Some split: list.splits)
  next
    case False
    then show ?thesis using Cons by simp
  qed
qed

lemma findSet_no_alias:
  "filter (\<lambda>n. n \<in> visited) names = [] \<Longrightarrow> findSet visited fs names ff = Inr ff"
  by (induction names) (simp_all split: if_splits)

section \<open>The loop over the flag definitions\<close>

lemma normalizeLoop_skip:
  "length (parts f) = 1 \<or> setAliases visited f = [] \<Longrightarrow>
   normalizeLoop V visited (f # flags) fs = normalizeLoop V visited flags fs"
  by (auto simp: setAliases_def findSet_no_alias)

lemma setAliases_two_parts: "setAliases visited f = a # b # rest \<Longrightarrow> length (parts f) \<noteq> 1"
proof
  assume two: "setAliases visited f = a # b # rest" and one: "length (parts f) = 1"
  have "length (setAliases visited f) \<le> length (parts f)"
    by (simp add: setAliases_def)
  with two one show False by simp
qed

lemma normalizeLoop_conflict_head:
  assumes "visited \<subseteq> dom (formal fs)" and "setAliases visited f = a # b # rest"
  shows "normalizeLoop V visited (f # flags) fs = (Some (conflictError b a), fs)"
  using assms setAliases_two_parts [OF assms(2)]
  by (simp add: findSet_None) (simp add: setAliases_def)

lemma normalizeLoop_copy_head:
  assumes "visited \<subseteq> dom (formal fs)" and "setAliases visited f = [a]"
    and "length (parts f) \<noteq> 1" and "formal fs a = Some va"
  shows "normalizeLoop V visited (f # flags) fs =
         normalizeLoop V visited flags (copyAll V visited \<lparr>Name = a, Value = va\<rparr> (parts f) fs)"
  using assms by (simp add: findSet_None Lookup_Some) (simp add: setAliases_def Lookup_Some)

lemma normalizeLoop_append:
  "fst (normalizeLoop V visited pre fs) = None \<Longrightarrow>
   normalizeLoop V visited (pre @ post) fs =
   normalizeLoop V visited post (snd (normalizeLoop V visited pre fs))"
  by (induction V visited pre fs rule: normalizeLoop.induct)
     (auto split: sum.splits option.splits)

lemma normalizeLoop_dom: "dom (formal (snd (normalizeLoop V visited flags fs))) = dom (formal fs)"
  by (induction V visited flags fs rule: normalizeLoop.induct)
     (auto simp: copyAll_dom split: sum.splits option.splits)

lemma normalizeLoop_visited_kept:
  "m \<in> visited \<Longrightarrow> formal (snd (normalizeLoop V visited flags fs)) m = formal fs m"
  by (induction V visited flags fs rule: normalizeLoop.induct)
     (auto simp: copyAll_other split: sum.splits option.splits)

lemma normalizeLoop_other_kept:
  "\<forall>f\<in>set flags. m \<notin> set (parts f) \<Longrightarrow>
   formal (snd (normalizeLoop V visited flags fs)) m = formal fs m"
  by (induction V visited flags fs rule: normalizeLoop.induct)
     (auto simp: copyAll_other split: sum.splits option.splits)

lemma normalizeLoop_actual_mono: "actual fs \<subseteq> actual (snd (normalizeLoop V visited flags fs))"
proof (induction V visited flags fs rule: normalizeLoop.induct)
  case (1 V visited fs)
  then show ?case by simp
next
  case (2 V visited f flags fs)
  show ?case
  proof (cases "length (parts f) = 1")
    case True
    with 2 show ?thesis by simp
  next
    case False
    show ?thesis
    proof (cases "findSet visited fs (parts f) None")
      case (Inl err)
      with False show ?thesis by simp
    next
      case (Inr r)
      show ?thesis
      proof (cases r)
        case None
        with 2 False Inr show ?thesis by simp
      next
        case (Some ff)
        have "actual fs \<subseteq> actual (copyAll V visited ff (parts f) fs)"
          by (rule copyAll_actual_mono)
        with 2(3) [OF False Inr Some] False Inr Some show ?thesis by auto
      qed
    qed
  qed
qed

lemma normalizeLoop_no_alias:
  "\<forall>f\<in>set flags. length (parts f) = 1 \<or> setAliases visited f = [] \<Longrightarrow>
   normalizeLoop V visited flags fs = (None, fs)"
proof (induction flags)
  case Nil
  then show ?case by simp
next
  case (Cons f flags)
  then have "normalizeLoop V visited (f # flags) fs = normalizeLoop V visited flags fs"
    by (intro normalizeLoop_skip) simp
  with Cons show ?case by simp
qed

lemma normalizeLoop_success:
  "visited \<subseteq> dom (formal fs) \<Longrightarrow> \<forall>f\<in>set flags. length (setAliases visited f) \<le> 1 \<Longrightarrow>
   fst (normalizeLoop V visited flags fs) = None"
proof (induction flags arbitrary: fs)
  case Nil
  then show ?case by simp
next
  case (Cons f flags)
  from Cons.prems(2) have rest: "\<forall>g\<in>set flags. length (setAliases visited g) \<le> 1"
    and here: "length (setAliases visited f) \<le> 1" by simp_all
  show ?case
  proof (cases "length (parts f) = 1 \<or> setAliases visited f = []")
    case True
    then show ?thesis using Cons.IH [OF Cons.prems(1) rest] by (simp only: normalizeLoop_skip)
  next
    case False
    with here obtain a where a: "setAliases visited f = [a]"
      by (cases "setAliases visited f") auto
    then have "a \<in> set (setAliases visited f)" by simp
    then have "a \<in> visited" by (simp add: setAliases_def)
    with Cons.prems(1) obtain va where va: "formal fs a = Some va" by auto
    let ?fs1 = "copyAll V visited \<lparr>Name = a, Value = va\<rparr> (parts f) fs"
    have "visited \<subseteq> dom (formal ?fs1)" using Cons.prems(1) by (simp add: copyAll_dom)
    from Cons.IH [OF this rest] show ?thesis
      using normalizeLoop_copy_head [OF Cons.prems(1) a _ va] False by simp
  qed
qed

lemma normalizeLoop_first_conflict:
  assumes wf: "visited \<subseteq> dom (formal fs)"
    and pre: "\<forall>g\<in>set pre. length (setAliases visited g) \<le> 1"
    and two: "setAliases visited f = a # b # rest"
  shows "normalizeLoop V visited (pre @ f # post) fs =
         (Some (conflictError b a), snd (normalizeLoop V visited pre fs))"
proof -
  have ok: "fst (normalizeLoop V visited pre fs) = None"
    by (rule normalizeLoop_success [OF wf pre])
  have "visited \<subseteq> dom (formal (snd (normalizeLoop V visited pre fs)))"
    using wf by (simp add: normalizeLoop_dom)
  from normalizeLoop_conflict_head [OF this two] show ?thesis
    by (simp add: normalizeLoop_append [OF ok])
qed

lemma normalizeLoop_conflict_fails:
  assumes wf: "visited \<subseteq> dom (formal fs)"
    and mem: "f \<in> set flags" and two: "2 \<le> length (setAliases visited f)"
  shows "fst (normalizeLoop V visited flags fs) \<noteq> None"
proof -
  from mem two have "\<exists>g\<in>set flags. 2 \<le> length (setAliases visited g)" by blast
  then obtain pre g post where split: "flags = pre @ g # post"
    and g: "2 \<le> length (setAliases visited g)"
    and first: "\<forall>h\<in>set pre. \<not> 2 \<le> length (setAliases visited h)"
    by (auto simp: split_list_first_prop_iff)
  from g obtain a b rest where ab: "setAliases visited g = a # b # rest"
    by (cases "setAliases visited g"; cases "tl (setAliases visited g)") auto
  from first have "\<forall>h\<in>set pre. length (setAliases visited h) \<le> 1" by auto
  from normalizeLoop_first_conflict [OF wf this ab] split show ?thesis by simp
qed

section \<open>Alias conflicts\<close>

lemmas eval_simps =
  normalizeFlags_def Visit_def parts_def mapS_def TrimSpace_def isSpace_def Lookup_def
  copyFlag_def FlagSet_Set_def stdMethods_def ParseBool_def FormatBool_def setAliases_def
  conflictError_def

text \<open>
  C1, as the code has it. In a flag set whose set names are all defined, a flag definition
  with two or more explicitly set aliases makes \<open>normalizeFlags\<close> fail. When it is the first
  such definition of the list, the error names its first two set aliases (the later one
  first), and the flag set is left as the normalisation of the definitions before it left
  it: nothing is copied for the conflicting definition or for a later one, while the copies
  made for earlier definitions stay. The flag set is unmodified when no earlier definition
  has an explicitly set alias.
\<close>

theorem normalizeFlags_conflict:
  assumes wf: "Visit fs \<subseteq> dom (formal fs)"
    and two: "setAliases (Visit fs) f = a # b # rest"
  shows "fst (normalizeFlags V (pre @ f # post) fs) \<noteq> None
    \<and> ((\<forall>g\<in>set pre. length (setAliases (Visit fs) g) \<le> 1) \<longrightarrow>
         normalizeFlags V (pre @ f # post) fs
           = (Some (conflictError b a), snd (normalizeFlags V pre fs))
         \<and> fst (normalizeFlags V pre fs) = None)
    \<and> ((\<forall>g\<in>set pre. length (parts g) = 1 \<or> setAliases (Visit fs) g = []) \<longrightarrow>
         normalizeFlags V (pre @ f # post) fs = (Some (conflictError b a), fs))"
proof (intro conjI impI)
  have "2 \<le> length (setAliases (Visit fs) f)" using two by simp
  from normalizeLoop_conflict_fails [OF wf _ this, of "pre @ f # post" V]
  show "fst (normalizeFlags V (pre @ f # post) fs) \<noteq> None"
    by (simp add: normalizeFlags_def)
next
  assume pre: "\<forall>g\<in>set pre. length (setAliases (Visit fs) g) \<le> 1"
  from normalizeLoop_first_conflict [OF wf pre two]
  show "normalizeFlags V (pre @ f # post) fs
          = (Some (conflictError b a), snd (normalizeFlags V pre fs))"
    by (simp add: normalizeFlags_def)
  from normalizeLoop_success [OF wf pre]
  show "fst (normalizeFlags V pre fs) = None"
    by (simp add: normalizeFlags_def)
next
  assume none: "\<forall>g\<in>set pre. length (parts g) = 1 \<or> setAliases (Visit fs) g = []"
  have same: "normalizeLoop V (Visit fs) pre fs = (None, fs)"
    by (rule normalizeLoop_no_alias [OF none])
  have "\<forall>g\<in>set pre. length (setAliases (Visit fs) g) \<le> 1"
  proof
    fix g assume "g \<in> set pre"
    with none have "length (parts g) = 1 \<or> setAliases (Visit fs) g = []" by blast
    moreover have "length (setAliases (Visit fs) g) \<le> length (parts g)"
      by (simp add: setAliases_def)
    ultimately show "length (setAliases (Visit fs) g) \<le> 1" by auto
  qed
  from normalizeLoop_first_conflict [OF wf this two, of V post] same
  show "normalizeFlags V (pre @ f # post) fs = (Some (conflictError b a), fs)"
    by (simp add: normalizeFlags_def)
qed

theorem normalizeFlags_conflict_witness:
  "Visit parsedACD \<subseteq> dom (formal parsedACD)
   \<and> setAliases (Visit parsedACD) flagCD = [''c'', ''d'']
   \<and> length (setAliases (Visit parsedACD) flagAB) \<le> 1
   \<and> normalizeFlags stdMethods [flagAB, flagCD] parsedACD
       = (Some (errorString ''Cannot use two forms of the same flag: d c''),
          snd (normalizeFlags stdMethods [flagAB] parsedACD))
   \<and> normalizeFlags stdMethods [flagCD, flagAB] parsedACD
       = (Some (errorString ''Cannot use two forms of the same flag: d c''), parsedACD)"
proof -
  have wf: "Visit parsedACD \<subseteq> dom (formal parsedACD)"
    by (simp add: Visit_def parsedACD_def)
  have two: "setAliases (Visit parsedACD) flagCD = [''c'', ''d'']"
    by (simp add: eval_simps parsedACD_def flagCD_def)
  have one: "length (setAliases (Visit parsedACD) flagAB) \<le> 1"
    by (simp add: eval_simps parsedACD_def flagAB_def)
  from one have "\<forall>g\<in>set [flagAB]. length (setAliases (Visit parsedACD) g) \<le> 1"
    by simp
  with normalizeFlags_conflict [OF wf two, of stdMethods "[flagAB]" "[]"]
  have "normalizeFlags stdMethods ([flagAB] @ flagCD # []) parsedACD
       = (Some (conflictError ''d'' ''c''), snd (normalizeFlags stdMethods [flagAB] parsedACD))"
    by blast
  then have first: "normalizeFlags stdMethods [flagAB, flagCD] parsedACD
       = (Some (conflictError ''d'' ''c''), snd (normalizeFlags stdMethods [flagAB] parsedACD))"
    by simp
  have "\<forall>g\<in>set ([]::unit Flag list). length (parts g) = 1 \<or> setAliases (Visit parsedACD) g = []"
    by simp
  with normalizeFlags_conflict [OF wf two, of stdMethods "[]" "[flagAB]"]
  have "normalizeFlags stdMethods ([] @ flagCD # [flagAB]) parsedACD
       = (Some (conflictError ''d'' ''c''), parsedACD)"
    by blast
  then have second: "normalizeFlags stdMethods [flagCD, flagAB] parsedACD
       = (Some (conflictError ''d'' ''c''), parsedACD)"
    by simp
  from wf two one first second show ?thesis by (simp add: conflictError_def)
qed

text \<open>
  The claim as stated fails: with \<open>-a -c -d\<close> the first definition is normalised (the
  value of \<open>a\<close> is copied onto \<open>b\<close>, and \<open>b\<close> is marked as set) before the conflict of the
  second definition is found, and the error leaves that copy in the flag set.
\<close>

theorem normalizeFlags_conflict_counterexample:
  "fst (normalizeFlags stdMethods [flagAB, flagCD] parsedACD)
     = Some (errorString ''Cannot use two forms of the same flag: d c'')
   \<and> formal parsedACD ''b'' = Some (OtherValue (boolValue False))
   \<and> formal (snd (normalizeFlags stdMethods [flagAB, flagCD] parsedACD)) ''b''
       = Some (OtherValue (boolValue True))
   \<and> ''b'' \<notin> actual parsedACD
   \<and> ''b'' \<in> actual (snd (normalizeFlags stdMethods [flagAB, flagCD] parsedACD))
   \<and> snd (normalizeFlags stdMethods [flagAB, flagCD] parsedACD) \<noteq> parsedACD"
proof -
  have b: "formal (snd (normalizeFlags stdMethods [flagAB, flagCD] parsedACD)) ''b''
       = Some (OtherValue (boolValue True))"
    by (simp add: eval_simps parsedACD_def flagAB_def flagCD_def)
  have b0: "formal parsedACD ''b'' = Some (OtherValue (boolValue False))"
    by (simp add: parsedACD_def)
  from b b0 have "snd (normalizeFlags stdMethods [flagAB, flagCD] parsedACD) \<noteq> parsedACD"
    by auto
  moreover have "fst (normalizeFlags stdMethods [flagAB, flagCD] parsedACD)
     = Some (errorString ''Cannot use two forms of the same flag: d c'')"
    by (simp add: eval_simps parsedACD_def flagAB_def flagCD_def)
  moreover have "''b'' \<in> actual (snd (normalizeFlags stdMethods [flagAB, flagCD] parsedACD))"
    by (simp add: eval_simps parsedACD_def flagAB_def flagCD_def)
  moreover have "''b'' \<notin> actual parsedACD"
    by (simp add: parsedACD_def)
  ultimately show ?thesis using b b0 by simp
qed

section \<open>What a run adds to the set names\<close>

lemma findSet_found:
  "findSet visited fs names None = Inr (Some ff) \<Longrightarrow> \<exists>a\<in>set names. a \<in> visited"
proof (rule ccontr)
  assume found: "findSet visited fs names None = Inr (Some ff)"
    and "\<not> (\<exists>a\<in>set names. a \<in> visited)"
  then have "filter (\<lambda>n. n \<in> visited) names = []" by (simp add: filter_empty_conv)
  from findSet_no_alias [OF this, of fs None] found show False by simp
qed

lemma normalizeLoop_append_failed:
  "fst (normalizeLoop V visited pre fs) \<noteq> None \<Longrightarrow>
   normalizeLoop V visited (pre @ post) fs = normalizeLoop V visited pre fs"
  by (induction V visited pre fs rule: normalizeLoop.induct)
     (auto split: sum.splits option.splits)

lemma normalizeLoop_actual_new:
  "x \<in> actual (snd (normalizeLoop V visited flags fs)) \<Longrightarrow> x \<notin> actual fs \<Longrightarrow>
   x \<in> dom (formal fs) \<and>
   (\<exists>f\<in>set flags. x \<in> set (parts f) \<and> x \<notin> visited \<and> (\<exists>a\<in>set (parts f). a \<in> visited))"
proof (induction V visited flags fs rule: normalizeLoop.induct)
  case (1 V visited fs)
  then show ?case by simp
next
  case (2 V visited f flags fs)
  show ?case
  proof (cases "length (parts f) = 1")
    case True
    with 2 show ?thesis by simp
  next
    case False
    show ?thesis
    proof (cases "findSet visited fs (parts f) None")
      case (Inl err)
      with False 2 show ?thesis by simp
    next
      case (Inr r)
      show ?thesis
      proof (cases r)
        case None
        with 2 False Inr show ?thesis by simp
      next
        case (Some ff)
        let ?fs1 = "copyAll V visited ff (parts f) fs"
        from "2.prems"(1) False Inr Some
        have x: "x \<in> actual (snd (normalizeLoop V visited flags ?fs1))" by simp
        show ?thesis
        proof (cases "x \<in> actual ?fs1")
          case True
          from copyAll_actual_new [OF True "2.prems"(2)] findSet_found [of visited fs "parts f" ff]
            Inr Some
          show ?thesis by auto
        next
          case notin: False
          from "2.IH"(3) [OF False Inr Some x notin] show ?thesis
            by (auto simp: copyAll_dom)
        qed
      qed
    qed
  qed
qed

lemma normalizeLoop_wf:
  assumes "actual fs \<subseteq> dom (formal fs)"
  shows "actual (snd (normalizeLoop V visited flags fs))
           \<subseteq> dom (formal (snd (normalizeLoop V visited flags fs)))"
proof
  fix x assume x: "x \<in> actual (snd (normalizeLoop V visited flags fs))"
  show "x \<in> dom (formal (snd (normalizeLoop V visited flags fs)))"
  proof (cases "x \<in> actual fs")
    case True
    with assms show ?thesis by (auto simp: normalizeLoop_dom)
  next
    case False
    from normalizeLoop_actual_new [OF x False] show ?thesis by (simp add: normalizeLoop_dom)
  qed
qed

lemma filter_two:
  "a \<in> set xs \<Longrightarrow> b \<in> set xs \<Longrightarrow> a \<noteq> b \<Longrightarrow> P a \<Longrightarrow> P b \<Longrightarrow> 2 \<le> length (filter P xs)"
proof -
  assume "a \<in> set xs" "b \<in> set xs" "a \<noteq> b" "P a" "P b"
  then have "{a, b} \<subseteq> set (filter P xs)" by simp
  then have "card {a, b} \<le> card (set (filter P xs))" by (intro card_mono) simp_all
  also have "\<dots> \<le> length (filter P xs)" by (rule card_length)
  finally show ?thesis using \<open>a \<noteq> b\<close> by simp
qed

lemma setAliases_single:
  "setAliases visited f = [a] \<Longrightarrow> a \<in> visited \<and> a \<in> set (parts f)
     \<and> (\<forall>b\<in>set (parts f). b \<noteq> a \<longrightarrow> b \<notin> visited)"
proof -
  assume a: "setAliases visited f = [a]"
  then have "set (setAliases visited f) = {a}" by simp
  then have "{n \<in> set (parts f). n \<in> visited} = {a}" by (simp add: setAliases_def)
  then show ?thesis by blast
qed

section \<open>One flag definition inside the list\<close>

lemma normalizeLoop_insert:
  assumes "\<And>fs1. dom (formal fs1) = dom (formal fs) \<Longrightarrow>
             (\<forall>m\<in>visited. formal fs1 m = formal fs m) \<Longrightarrow>
             normalizeLoop V visited (f # post) fs1 = normalizeLoop V visited post fs1"
  shows "normalizeLoop V visited (pre @ f # post) fs = normalizeLoop V visited (pre @ post) fs"
proof (cases "fst (normalizeLoop V visited pre fs) = None")
  case True
  let ?fs1 = "snd (normalizeLoop V visited pre fs)"
  have "normalizeLoop V visited (f # post) ?fs1 = normalizeLoop V visited post ?fs1"
    by (rule assms) (simp_all add: normalizeLoop_dom normalizeLoop_visited_kept)
  then show ?thesis by (simp only: normalizeLoop_append [OF True])
next
  case False
  then show ?thesis by (simp add: normalizeLoop_append_failed)
qed

lemma normalizeLoop_single_name:
  "length (parts f) = 1 \<Longrightarrow>
   normalizeLoop V visited (pre @ f # post) fs = normalizeLoop V visited (pre @ post) fs"
  by (rule normalizeLoop_insert) (rule normalizeLoop_skip, simp)

lemma normalizeLoop_exempt:
  assumes wf: "visited \<subseteq> dom (formal fs)"
    and a: "setAliases visited f = [a]" and va: "formal fs a = Some (StringSlice xs)"
  shows "normalizeLoop V visited (pre @ f # post) fs = normalizeLoop V visited (pre @ post) fs"
proof (rule normalizeLoop_insert)
  fix fs1 :: "'a FlagSet"
  assume dom: "dom (formal fs1) = dom (formal fs)"
    and kept: "\<forall>m\<in>visited. formal fs1 m = formal fs m"
  from setAliases_single [OF a] have "a \<in> visited" by simp
  with kept va have va1: "formal fs1 a = Some (StringSlice xs)" by simp
  from wf dom have wf1: "visited \<subseteq> dom (formal fs1)" by simp
  show "normalizeLoop V visited (f # post) fs1 = normalizeLoop V visited post fs1"
  proof (cases "length (parts f) = 1")
    case True
    then show ?thesis by (intro normalizeLoop_skip) simp
  next
    case False
    from normalizeLoop_copy_head [OF wf1 a False va1]
    show ?thesis by (simp add: copyAll_StringSlice)
  qed
qed

lemma normalizeLoop_copied:
  assumes wf: "visited \<subseteq> dom (formal fs)"
    and pre: "\<forall>g\<in>set pre. length (setAliases visited g) \<le> 1"
    and a: "setAliases visited f = [a]" and multi: "length (parts f) \<noteq> 1"
    and va: "formal fs a = Some va" and kind: "\<forall>xs. va \<noteq> StringSlice xs"
    and dist: "distinct (parts f)" and b: "b \<in> set (parts f)" and ba: "b \<noteq> a"
    and others: "\<forall>g\<in>set (pre @ post). b \<notin> set (parts g)"
    and vb: "formal fs b = Some vb"
  shows "formal (snd (normalizeLoop V visited (pre @ f # post) fs)) b
           = Some (snd (Value_Set V vb (Value_String V va)))"
    and "fst (Value_Set V vb (Value_String V va)) = None \<Longrightarrow>
         b \<in> actual (snd (normalizeLoop V visited (pre @ f # post) fs))"
proof -
  let ?fs1 = "snd (normalizeLoop V visited pre fs)"
  let ?ff = "\<lparr>Name = a, Value = va\<rparr>"
  let ?fs2 = "copyAll V visited ?ff (parts f) ?fs1"
  from setAliases_single [OF a] b ba have av: "a \<in> visited" and bv: "b \<notin> visited" by auto
  have ok: "fst (normalizeLoop V visited pre fs) = None"
    by (rule normalizeLoop_success [OF wf pre])
  have wf1: "visited \<subseteq> dom (formal ?fs1)" using wf by (simp add: normalizeLoop_dom)
  have va1: "formal ?fs1 a = Some va" using av va by (simp add: normalizeLoop_visited_kept)
  have vb1: "formal ?fs1 b = Some vb" using others vb by (simp add: normalizeLoop_other_kept)
  have run: "normalizeLoop V visited (pre @ f # post) fs = normalizeLoop V visited post ?fs2"
    using normalizeLoop_copy_head [OF wf1 a multi va1] by (simp add: normalizeLoop_append [OF ok])
  have "formal ?fs2 b = Some (snd (Value_Set V vb (Value_String V va)))"
    using copyAll_same [OF dist b bv vb1, of ?ff V] kind by simp
  then show "formal (snd (normalizeLoop V visited (pre @ f # post) fs)) b
           = Some (snd (Value_Set V vb (Value_String V va)))"
    using others by (simp add: run normalizeLoop_other_kept)
  assume "fst (Value_Set V vb (Value_String V va)) = None"
  then have "b \<in> actual ?fs2"
    using copyAll_marks [OF b bv vb1 dist, of ?ff V] kind by simp
  then show "b \<in> actual (snd (normalizeLoop V visited (pre @ f # post) fs))"
    using normalizeLoop_actual_mono [of ?fs2 V visited post] by (auto simp: run)
qed

section \<open>Copying the set alias\<close>

text \<open>
  For the values of the standard flag package, writing a cell through \<open>Set\<close> with the
  rendering of a value of the same kind makes the cell equal to that value.
\<close>

lemma std_copy:
  "Value_Set stdMethods (OtherValue (boolValue y)) (Value_String stdMethods (OtherValue (boolValue x)))
     = (None, OtherValue (boolValue x))"
  "Value_Set stdMethods (OtherValue (stringValue t))
     (Value_String stdMethods (OtherValue (stringValue s)))
     = (None, OtherValue (stringValue s))"
  by (cases x) (simp_all add: stdMethods_def FormatBool_def ParseBool_def)

text \<open>
  C3. A flag definition with a single name is skipped: the run is the run of the list
  without it. So is a definition whose one explicitly set alias holds a string list:
  nothing is copied for it. For a definition with several names, exactly one of them set
  and its value not a string list, a run that reaches the definition (no definition before
  it has two set aliases) leaves the set alias as it was and writes every other alias of
  the definition through \<open>Set\<close> with the rendering of the set alias's value; an alias whose
  \<open>Set\<close> accepts it is marked as set. (The other alias is taken to be an alias of this
  definition alone, named once in it.)
\<close>

theorem normalizeFlags_copies:
  assumes wf: "Visit fs \<subseteq> dom (formal fs)"
  shows "(length (parts f) = 1 \<longrightarrow>
            normalizeFlags V (pre @ f # post) fs = normalizeFlags V (pre @ post) fs)
    \<and> (setAliases (Visit fs) f = [a] \<and> formal fs a = Some (StringSlice xs) \<longrightarrow>
            normalizeFlags V (pre @ f # post) fs = normalizeFlags V (pre @ post) fs)
    \<and> (setAliases (Visit fs) f = [a] \<and> length (parts f) \<noteq> 1
          \<and> formal fs a = Some va \<and> (\<forall>ys. va \<noteq> StringSlice ys)
          \<and> (\<forall>g\<in>set pre. length (setAliases (Visit fs) g) \<le> 1) \<longrightarrow>
            formal (snd (normalizeFlags V (pre @ f # post) fs)) a = Some va
          \<and> (\<forall>b\<in>set (parts f).
                b \<noteq> a \<and> distinct (parts f) \<and> (\<forall>g\<in>set (pre @ post). b \<notin> set (parts g)) \<longrightarrow>
                b \<notin> Visit fs
              \<and> (case formal fs b of
                    None \<Rightarrow> formal (snd (normalizeFlags V (pre @ f # post) fs)) b = None
                  | Some vb \<Rightarrow>
                      formal (snd (normalizeFlags V (pre @ f # post) fs)) b
                        = Some (snd (Value_Set V vb (Value_String V va)))
                    \<and> (fst (Value_Set V vb (Value_String V va)) = None \<longrightarrow>
                          b \<in> Visit (snd (normalizeFlags V (pre @ f # post) fs))))))"
proof (intro conjI impI ballI)
  assume "length (parts f) = 1"
  then show "normalizeFlags V (pre @ f # post) fs = normalizeFlags V (pre @ post) fs"
    by (simp add: normalizeFlags_def normalizeLoop_single_name)
next
  assume "setAliases (Visit fs) f = [a] \<and> formal fs a = Some (StringSlice xs)"
  then show "normalizeFlags V (pre @ f # post) fs = normalizeFlags V (pre @ post) fs"
    using normalizeLoop_exempt [OF wf, of f a xs V pre post] by (simp add: normalizeFlags_def)
next
  assume h: "setAliases (Visit fs) f = [a] \<and> length (parts f) \<noteq> 1
          \<and> formal fs a = Some va \<and> (\<forall>ys. va \<noteq> StringSlice ys)
          \<and> (\<forall>g\<in>set pre. length (setAliases (Visit fs) g) \<le> 1)"
  then have "a \<in> Visit fs" using setAliases_single [of "Visit fs" f a] by simp
  with h show "formal (snd (normalizeFlags V (pre @ f # post) fs)) a = Some va"
    by (simp add: normalizeFlags_def normalizeLoop_visited_kept)
next
  fix b
  assume h: "setAliases (Visit fs) f = [a] \<and> length (parts f) \<noteq> 1
          \<and> formal fs a = Some va \<and> (\<forall>ys. va \<noteq> StringSlice ys)
          \<and> (\<forall>g\<in>set pre. length (setAliases (Visit fs) g) \<le> 1)"
    and b: "b \<in> set (parts f)"
    and hb: "b \<noteq> a \<and> distinct (parts f) \<and> (\<forall>g\<in>set (pre @ post). b \<notin> set (parts g))"
  from h b hb setAliases_single [of "Visit fs" f a] show "b \<notin> Visit fs" by auto
  show "case formal fs b of
          None \<Rightarrow> formal (snd (normalizeFlags V (pre @ f # post) fs)) b = None
        | Some vb \<Rightarrow>
            formal (snd (normalizeFlags V (pre @ f # post) fs)) b
              = Some (snd (Value_Set V vb (Value_String V va)))
          \<and> (fst (Value_Set V vb (Value_String V va)) = None \<longrightarrow>
                b \<in> Visit (snd (normalizeFlags V (pre @ f # post) fs)))"
  proof (cases "formal fs b")
    case None
    then have "b \<notin> dom (formal (snd (normalizeLoop V (Visit fs) (pre @ f # post) fs)))"
      by (simp only: normalizeLoop_dom) auto
    with None show ?thesis by (auto simp: normalizeFlags_def)
  next
    case (Some vb)
    from h hb b Some
      normalizeLoop_copied [OF wf, of pre f a va b post vb V]
    show ?thesis by (simp add: normalizeFlags_def Visit_def)
  qed
qed

theorem normalizeFlags_copies_witness:
  "Visit parsedACD \<subseteq> dom (formal parsedACD)
   \<and> setAliases (Visit parsedACD) flagAB = [''a'']
   \<and> parts flagAB = [''a'', ''b'']
   \<and> formal parsedACD ''b'' = Some (OtherValue (boolValue False))
   \<and> formal (snd (normalizeFlags stdMethods [flagAB] parsedACD)) ''a''
       = Some (OtherValue (boolValue True))
   \<and> formal (snd (normalizeFlags stdMethods [flagAB] parsedACD)) ''b''
       = Some (OtherValue (boolValue True))
   \<and> ''b'' \<in> Visit (snd (normalizeFlags stdMethods [flagAB] parsedACD))
   \<and> setAliases (Visit parsedN) flagName = [''n'']
   \<and> normalizeFlags stdMethods [flagName] parsedN = (None, parsedN)
   \<and> length (parts flagPort) = 1
   \<and> normalizeFlags stdMethods [flagPort] parsedN = (None, parsedN)"
proof -
  have wf: "Visit parsedACD \<subseteq> dom (formal parsedACD)"
    by (simp add: Visit_def parsedACD_def)
  have a: "setAliases (Visit parsedACD) flagAB = [''a'']"
    by (simp add: eval_simps parsedACD_def flagAB_def)
  have p: "parts flagAB = [''a'', ''b'']"
    by (simp add: eval_simps flagAB_def)
  have va: "formal parsedACD ''a'' = Some (OtherValue (boolValue True))"
    and vb: "formal parsedACD ''b'' = Some (OtherValue (boolValue False))"
    by (simp_all add: parsedACD_def)
  have set: "Value_Set stdMethods (OtherValue (boolValue False))
               (Value_String stdMethods (OtherValue (boolValue True)))
             = (None, OtherValue (boolValue True))"
    by (simp add: stdMethods_def FormatBool_def ParseBool_def)
  from normalizeFlags_copies [OF wf, of flagAB stdMethods "[]" "[]" "''a''" "[]"
      "OtherValue (boolValue True)"] a p va vb set
  have copy: "formal (snd (normalizeFlags stdMethods [flagAB] parsedACD)) ''a''
       = Some (OtherValue (boolValue True))
   \<and> formal (snd (normalizeFlags stdMethods [flagAB] parsedACD)) ''b''
       = Some (OtherValue (boolValue True))
   \<and> ''b'' \<in> Visit (snd (normalizeFlags stdMethods [flagAB] parsedACD))"
    by simp
  have wfN: "Visit parsedN \<subseteq> dom (formal parsedN)"
    by (simp add: Visit_def parsedN_def)
  have n: "setAliases (Visit parsedN) flagName = [''n'']"
    by (simp add: eval_simps parsedN_def flagName_def)
  have vn: "formal parsedN ''n'' = Some (StringSlice [''x''])"
    by (simp add: parsedN_def)
  from normalizeFlags_copies [OF wfN, of flagName stdMethods "[]" "[]" "''n''" "[''x'']"] n vn
  have exempt: "normalizeFlags stdMethods [flagName] parsedN = (None, parsedN)"
    by (simp add: normalizeFlags_def)
  have port: "length (parts flagPort) = 1"
    by (simp add: eval_simps flagPort_def)
  from normalizeFlags_copies [OF wfN, of flagPort stdMethods "[]" "[]"] port
  have single: "normalizeFlags stdMethods [flagPort] parsedN = (None, parsedN)"
    by (simp add: normalizeFlags_def)
  from wf a p vb copy n exempt port single show ?thesis by simp
qed

section \<open>Runs without a conflict\<close>

lemma lookups_agree:
  assumes "formal fs a = Some va" and "formal fs b = Some vb"
    and "Value_String V vb = Value_String V va"
  shows "lookupString V b fs = lookupString V a fs \<and> lookupInt V b fs = lookupInt V a fs
    \<and> lookupBool V b fs = lookupBool V a fs \<and> lookupBoolT V b fs = lookupBoolT V a fs
    \<and> lookupFloat64 P V b fs = lookupFloat64 P V a fs"
  using assms
  by (simp add: lookupString_def lookupInt_def lookupBool_def lookupBoolT_def lookupFloat64_def
      Lookup_Some)

lemma second_run:
  assumes wf: "visited \<subseteq> dom (formal fs)" and vis: "visited = actual fs"
    and one: "\<forall>f\<in>set flags. length (setAliases visited f) \<le> 1"
  shows "fst (normalizeLoop V (actual (snd (normalizeLoop V visited flags fs))) flags
               (snd (normalizeLoop V visited flags fs))) = None
         \<longleftrightarrow> actual (snd (normalizeLoop V visited flags fs)) = actual fs"
proof
  let ?fs' = "snd (normalizeLoop V visited flags fs)"
  assume same: "actual ?fs' = actual fs"
  have "actual ?fs' \<subseteq> dom (formal ?fs')"
    using wf vis by (intro normalizeLoop_wf) simp
  moreover have "\<forall>f\<in>set flags. length (setAliases (actual ?fs') f) \<le> 1"
    using one vis same by simp
  ultimately show "fst (normalizeLoop V (actual ?fs') flags ?fs') = None"
    by (rule normalizeLoop_success)
next
  let ?fs' = "snd (normalizeLoop V visited flags fs)"
  assume ok: "fst (normalizeLoop V (actual ?fs') flags ?fs') = None"
  show "actual ?fs' = actual fs"
  proof (rule ccontr)
    assume "actual ?fs' \<noteq> actual fs"
    with normalizeLoop_actual_mono [of fs V visited flags]
    obtain x where x: "x \<in> actual ?fs'" and new: "x \<notin> actual fs" by auto
    from normalizeLoop_actual_new [OF x new]
    obtain f a where f: "f \<in> set flags" and xf: "x \<in> set (parts f)" and "x \<notin> visited"
      and af: "a \<in> set (parts f)" and av: "a \<in> visited"
      by auto
    from av vis new have "a \<noteq> x" by auto
    moreover from av vis normalizeLoop_actual_mono [of fs V visited flags]
    have "a \<in> actual ?fs'" by auto
    ultimately have "2 \<le> length (setAliases (actual ?fs') f)"
      unfolding setAliases_def using af xf x by (intro filter_two [of a _ x]) simp_all
    moreover have "actual ?fs' \<subseteq> dom (formal ?fs')"
      using wf vis by (intro normalizeLoop_wf) simp
    ultimately have "fst (normalizeLoop V (actual ?fs') flags ?fs') \<noteq> None"
      using f by (intro normalizeLoop_conflict_fails [of _ _ f]) simp_all
    with ok show False by simp
  qed
qed

text \<open>
  C2, as the code has it. When every flag definition has at most one explicitly set alias
  (in a flag set whose set names are all defined), \<open>normalizeFlags\<close> succeeds. Afterwards
  an alias whose cell took the rendering of the set alias's value yields the same value as
  the set alias through the typed accessors that read the rendering (string, integer,
  boolean, tri-state boolean, float); the aliases of a definition with no set alias keep
  their cells. A second run on the result succeeds exactly when
  the first run marked no further name as set: every accepted copy marks its target, so a
  flag definition whose value was copied has two set aliases in the second run. When no
  definition with several names has a set alias, the run changes nothing, and neither
  does a second run.
\<close>

theorem normalizeFlags_at_most_one:
  assumes wf: "Visit fs \<subseteq> dom (formal fs)"
    and one: "\<forall>f\<in>set flags. length (setAliases (Visit fs) f) \<le> 1"
    and run: "fs' = snd (normalizeFlags V flags fs)"
  shows "fst (normalizeFlags V flags fs) = None
    \<and> (\<forall>b\<in>set (parts f).
          flags = pre @ f # post \<and> setAliases (Visit fs) f = [a] \<and> length (parts f) \<noteq> 1
          \<and> distinct (parts f) \<and> (\<forall>g\<in>set (pre @ post). b \<notin> set (parts g))
          \<and> formal fs a = Some va \<and> (\<forall>xs. va \<noteq> StringSlice xs) \<and> formal fs b = Some vb
          \<and> Value_String V (snd (Value_Set V vb (Value_String V va))) = Value_String V va \<longrightarrow>
          lookupString V b fs' = lookupString V a fs' \<and> lookupInt V b fs' = lookupInt V a fs'
          \<and> lookupBool V b fs' = lookupBool V a fs' \<and> lookupBoolT V b fs' = lookupBoolT V a fs'
          \<and> lookupFloat64 P V b fs' = lookupFloat64 P V a fs')
    \<and> (\<forall>b\<in>set (parts f).
          flags = pre @ f # post \<and> setAliases (Visit fs) f = []
          \<and> (\<forall>g\<in>set (pre @ post). b \<notin> set (parts g)) \<longrightarrow>
          formal fs' b = formal fs b)
    \<and> (fst (normalizeFlags V flags fs') = None \<longleftrightarrow> Visit fs' = Visit fs)
    \<and> ((\<forall>f\<in>set flags. length (parts f) = 1 \<or> setAliases (Visit fs) f = []) \<longrightarrow>
          fs' = fs \<and> normalizeFlags V flags fs' = (None, fs'))"
proof -
  have success: "fst (normalizeFlags V flags fs) = None"
    using normalizeLoop_success [OF wf one] by (simp add: normalizeFlags_def)
  have agree: "\<forall>b\<in>set (parts f).
          flags = pre @ f # post \<and> setAliases (Visit fs) f = [a] \<and> length (parts f) \<noteq> 1
          \<and> distinct (parts f) \<and> (\<forall>g\<in>set (pre @ post). b \<notin> set (parts g))
          \<and> formal fs a = Some va \<and> (\<forall>xs. va \<noteq> StringSlice xs) \<and> formal fs b = Some vb
          \<and> Value_String V (snd (Value_Set V vb (Value_String V va))) = Value_String V va \<longrightarrow>
          lookupString V b fs' = lookupString V a fs' \<and> lookupInt V b fs' = lookupInt V a fs'
          \<and> lookupBool V b fs' = lookupBool V a fs' \<and> lookupBoolT V b fs' = lookupBoolT V a fs'
          \<and> lookupFloat64 P V b fs' = lookupFloat64 P V a fs'"
  proof (intro ballI impI)
  fix b
  assume b: "b \<in> set (parts f)"
    and h: "flags = pre @ f # post \<and> setAliases (Visit fs) f = [a] \<and> length (parts f) \<noteq> 1
          \<and> distinct (parts f) \<and> (\<forall>g\<in>set (pre @ post). b \<notin> set (parts g))
          \<and> formal fs a = Some va \<and> (\<forall>xs. va \<noteq> StringSlice xs) \<and> formal fs b = Some vb
          \<and> Value_String V (snd (Value_Set V vb (Value_String V va))) = Value_String V va"
  show "lookupString V b fs' = lookupString V a fs' \<and> lookupInt V b fs' = lookupInt V a fs'
          \<and> lookupBool V b fs' = lookupBool V a fs' \<and> lookupBoolT V b fs' = lookupBoolT V a fs'
          \<and> lookupFloat64 P V b fs' = lookupFloat64 P V a fs'"
  proof (cases "b = a")
    case True
    then show ?thesis by simp
  next
    case False
    from h setAliases_single [of "Visit fs" f a] have av: "a \<in> Visit fs" by simp
    from h av have a': "formal fs' a = Some va"
      by (simp add: run normalizeFlags_def normalizeLoop_visited_kept)
    from h one have "\<forall>g\<in>set pre. length (setAliases (Visit fs) g) \<le> 1" by simp
    from normalizeLoop_copied(1) [OF wf this, of f a va b post vb V] h b False
    have b': "formal fs' b = Some (snd (Value_Set V vb (Value_String V va)))"
      by (simp add: run normalizeFlags_def)
    from h show ?thesis by (intro lookups_agree [OF a' b']) simp
  qed
  qed
  have unset: "\<forall>b\<in>set (parts f).
          flags = pre @ f # post \<and> setAliases (Visit fs) f = []
          \<and> (\<forall>g\<in>set (pre @ post). b \<notin> set (parts g)) \<longrightarrow>
          formal fs' b = formal fs b"
  proof (intro ballI impI)
    fix b
    assume h: "flags = pre @ f # post \<and> setAliases (Visit fs) f = []
          \<and> (\<forall>g\<in>set (pre @ post). b \<notin> set (parts g))"
    have "normalizeLoop V (Visit fs) (pre @ f # post) fs = normalizeLoop V (Visit fs) (pre @ post) fs"
      using h by (intro normalizeLoop_insert normalizeLoop_skip) simp
    with h show "formal fs' b = formal fs b"
      by (simp add: run normalizeFlags_def normalizeLoop_other_kept)
  qed
  have again: "(fst (normalizeFlags V flags fs') = None) = (Visit fs' = Visit fs)"
    using second_run [OF wf _ one, of V] by (simp add: run normalizeFlags_def Visit_def)
  have unchanged: "(\<forall>f\<in>set flags. length (parts f) = 1 \<or> setAliases (Visit fs) f = []) \<longrightarrow>
          fs' = fs \<and> normalizeFlags V flags fs' = (None, fs')"
  proof (intro impI)
    assume none: "\<forall>f\<in>set flags. length (parts f) = 1 \<or> setAliases (Visit fs) f = []"
    from normalizeLoop_no_alias [OF none, of V fs] have same: "fs' = fs"
      by (simp add: run normalizeFlags_def)
    with normalizeLoop_no_alias [OF none, of V fs]
    show "fs' = fs \<and> normalizeFlags V flags fs' = (None, fs')"
      by (simp add: normalizeFlags_def)
  qed
  show ?thesis
    by (rule conjI [OF success conjI [OF agree conjI [OF unset conjI [OF again unchanged]]]])
qed

theorem normalizeFlags_at_most_one_witness:
  "Visit parsedV \<subseteq> dom (formal parsedV)
   \<and> length (setAliases (Visit parsedV) flagVersion) \<le> 1
   \<and> fst (normalizeFlags stdMethods [flagVersion] parsedV) = None
   \<and> lookupBool stdMethods ''version'' (snd (normalizeFlags stdMethods [flagVersion] parsedV))
       = lookupBool stdMethods ''v'' (snd (normalizeFlags stdMethods [flagVersion] parsedV))
   \<and> lookupBool stdMethods ''v'' (snd (normalizeFlags stdMethods [flagVersion] parsedV)) = True
   \<and> Visit (snd (normalizeFlags stdMethods [flagVersion] parsedV)) \<noteq> Visit parsedV
   \<and> fst (normalizeFlags stdMethods [flagVersion]
            (snd (normalizeFlags stdMethods [flagVersion] parsedV))) \<noteq> None
   \<and> length (parts flagPort) = 1
   \<and> normalizeFlags stdMethods [flagPort] (snd (normalizeFlags stdMethods [flagPort] parsedN))
       = (None, parsedN)
   \<and> setAliases (Visit parsedH) flagVersion = []
   \<and> formal (snd (normalizeFlags stdMethods [flagVersion] parsedH)) ''version''
       = Some (OtherValue (boolValue False))"
proof -
  let ?fs' = "snd (normalizeFlags stdMethods [flagVersion] parsedV)"
  have wf: "Visit parsedV \<subseteq> dom (formal parsedV)"
    by (simp add: Visit_def parsedV_def)
  have len: "length (setAliases (Visit parsedV) flagVersion) \<le> 1"
    by (simp add: eval_simps parsedV_def flagVersion_def)
  then have one: "\<forall>f\<in>set [flagVersion]. length (setAliases (Visit parsedV) f) \<le> 1"
    by simp
  have v: "setAliases (Visit parsedV) flagVersion = [''v'']"
    by (simp add: eval_simps parsedV_def flagVersion_def)
  have p: "parts flagVersion = [''version'', ''v'']"
    by (simp add: eval_simps flagVersion_def)
  have cells: "formal parsedV ''v'' = Some (OtherValue (boolValue True))"
    "formal parsedV ''version'' = Some (OtherValue (boolValue False))"
    by (simp_all add: parsedV_def)
  have set: "Value_Set stdMethods (OtherValue (boolValue False))
               (Value_String stdMethods (OtherValue (boolValue True)))
             = (None, OtherValue (boolValue True))"
    by (simp add: stdMethods_def FormatBool_def ParseBool_def)
  note inst = normalizeFlags_at_most_one [OF wf one refl, of stdMethods flagVersion "[]" "[]"
      "''v''" "OtherValue (boolValue True)" "OtherValue (boolValue False)"
      "\<lambda>s. (None :: int option)"]
  from inst have ok: "fst (normalizeFlags stdMethods [flagVersion] parsedV) = None"
    by blast
  from inst v p cells set
  have agree: "lookupBool stdMethods ''version'' ?fs' = lookupBool stdMethods ''v'' ?fs'"
    by simp
  have new: "Visit ?fs' \<noteq> Visit parsedV"
    by (simp add: eval_simps parsedV_def flagVersion_def)
  with inst have again: "fst (normalizeFlags stdMethods [flagVersion] ?fs') \<noteq> None"
    by blast
  have true: "lookupBool stdMethods ''v'' ?fs' = True"
    by (simp add: lookupBool_def eval_simps parsedV_def flagVersion_def)
  have wfN: "Visit parsedN \<subseteq> dom (formal parsedN)"
    by (simp add: Visit_def parsedN_def)
  have port: "length (parts flagPort) = 1"
    by (simp add: eval_simps flagPort_def)
  then have oneN: "\<forall>f\<in>set [flagPort]. length (setAliases (Visit parsedN) f) \<le> 1"
    using length_filter_le [of "\<lambda>name. name \<in> Visit parsedN" "parts flagPort"]
    by (simp add: setAliases_def)
  from port have "\<forall>f\<in>set [flagPort]. length (parts f) = 1 \<or> setAliases (Visit parsedN) f = []"
    by simp
  with normalizeFlags_at_most_one [OF wfN oneN refl, of stdMethods]
  have idem: "normalizeFlags stdMethods [flagPort] (snd (normalizeFlags stdMethods [flagPort] parsedN))
       = (None, parsedN)"
    by metis
  have wfH: "Visit parsedH \<subseteq> dom (formal parsedH)"
    by (simp add: Visit_def parsedH_def)
  have noneH: "setAliases (Visit parsedH) flagVersion = []"
    by (simp add: eval_simps parsedH_def flagVersion_def)
  then have oneH: "\<forall>f\<in>set [flagVersion]. length (setAliases (Visit parsedH) f) \<le> 1"
    by simp
  have cellH: "formal parsedH ''version'' = Some (OtherValue (boolValue False))"
    by (simp add: parsedH_def)
  from normalizeFlags_at_most_one [OF wfH oneH refl, of stdMethods flagVersion "[]" "[]"] noneH p
  have "formal (snd (normalizeFlags stdMethods [flagVersion] parsedH)) ''version''
          = formal parsedH ''version''"
    by simp
  with cellH have keptH: "formal (snd (normalizeFlags stdMethods [flagVersion] parsedH)) ''version''
       = Some (OtherValue (boolValue False))"
    by simp
  from wf len ok agree true new again port idem noneH keptH show ?thesis by simp
qed

text \<open>
  The claim as stated fails: after \<open>-v\<close> the first run copies \<open>true\<close> onto \<open>version\<close> and
  \<open>FlagSet.Set\<close> marks \<open>version\<close> as set; the second run finds \<open>version\<close> and \<open>v\<close> both
  set and reports a conflict.
\<close>

theorem normalizeFlags_idempotent_counterexample:
  "length (setAliases (Visit parsedV) flagVersion) \<le> 1
   \<and> fst (normalizeFlags stdMethods [flagVersion] parsedV) = None
   \<and> fst (normalizeFlags stdMethods [flagVersion]
            (snd (normalizeFlags stdMethods [flagVersion] parsedV)))
       = Some (errorString ''Cannot use two forms of the same flag: v version'')"
  by (simp add: eval_simps parsedV_def flagVersion_def)

section \<open>IsSet\<close>

lemma IsSet_cached: "setFlags c = Some m \<Longrightarrow> IsSet c name = (m name = Some True, c)"
  by (simp add: IsSet_def)

lemma IsSet_calls_cached: "setFlags c = Some m \<Longrightarrow> IsSet_calls c names = c"
  by (induction names) (simp_all add: IsSet_cached)

lemma IsSet_first:
  "setFlags c = None \<Longrightarrow>
   IsSet c name = (name \<in> Visit (flagSet c), c\<lparr>setFlags := Some (visitedTable (flagSet c))\<rparr>)"
  by (simp add: IsSet_def visitedTable_def)

text \<open>
  C8. On a context as \<open>NewContext\<close> builds it, after any number of earlier \<open>IsSet\<close> calls,
  \<open>IsSet(name)\<close> is true exactly when \<open>name\<close> is among the names the local flag set has
  recorded as set; the global flag set plays no part. The first call stores the table of
  those names; every call on a context that holds a table answers from the table alone
  (whatever the flag set is by then) and leaves the context as it is.
\<close>

theorem IsSet_spec:
  "fst (IsSet (IsSet_calls (NewContext fs global) names) name) = (name \<in> Visit fs)
   \<and> setFlags (IsSet_calls (NewContext fs global) names)
       = (if names = [] then None else Some (visitedTable fs))
   \<and> setFlags (snd (IsSet (IsSet_calls (NewContext fs global) names) name))
       = Some (visitedTable fs)
   \<and> (names \<noteq> [] \<longrightarrow>
         snd (IsSet (IsSet_calls (NewContext fs global) names) name)
           = IsSet_calls (NewContext fs global) names)
   \<and> (setFlags c = Some m \<longrightarrow>
         IsSet (c\<lparr>flagSet := fs2\<rparr>) name = (m name = Some True, c\<lparr>flagSet := fs2\<rparr>))"
proof -
  have start: "setFlags (NewContext fs global) = None" "flagSet (NewContext fs global) = fs"
    by (simp_all add: NewContext_def)
  have calls: "IsSet_calls (NewContext fs global) names
      = (if names = [] then NewContext fs global
         else (NewContext fs global)\<lparr>setFlags := Some (visitedTable fs)\<rparr>)"
  proof (cases names)
    case Nil
    then show ?thesis by simp
  next
    case (Cons n ns)
    then show ?thesis
      by (simp add: IsSet_first [OF start(1)] start(2) IsSet_calls_cached)
  qed
  show ?thesis
    by (simp add: calls IsSet_first start IsSet_cached) (simp add: visitedTable_def)
qed

theorem IsSet_spec_witness:
  "fst (IsSet (IsSet_calls (NewContext parsedV parsedACD) [''x'', ''v'']) ''v'') = True
   \<and> fst (IsSet (IsSet_calls (NewContext parsedV parsedACD) [''x'', ''v'']) ''version'') = False
   \<and> fst (IsSet (IsSet_calls (NewContext parsedV parsedACD) [''x'', ''v'']) ''a'') = False
   \<and> snd (IsSet (IsSet_calls (NewContext parsedV parsedACD) [''x'', ''v'']) ''v'')
       = IsSet_calls (NewContext parsedV parsedACD) [''x'', ''v'']
   \<and> IsSet ((NewContext parsedV parsedACD)\<lparr>setFlags := Some (visitedTable parsedV),
                flagSet := parsedACD\<rparr>) ''a''
       = (False, (NewContext parsedV parsedACD)\<lparr>setFlags := Some (visitedTable parsedV),
                flagSet := parsedACD\<rparr>)"
proof -
  let ?c = "IsSet_calls (NewContext parsedV parsedACD) [''x'', ''v'']"
  let ?d = "(NewContext parsedV parsedACD)\<lparr>setFlags := Some (visitedTable parsedV)\<rparr>"
  have vis: "Visit parsedV = {''v''}"
    by (simp add: Visit_def parsedV_def)
  have cached: "setFlags ?d = Some (visitedTable parsedV)"
    by simp
  have "fst (IsSet ?c ''v'') = (''v'' \<in> Visit parsedV)"
    using IsSet_spec [of parsedV parsedACD "[''x'', ''v'']" "''v''"] by blast
  then have v: "fst (IsSet ?c ''v'') = True" by (simp add: vis)
  have "fst (IsSet ?c ''version'') = (''version'' \<in> Visit parsedV)"
    using IsSet_spec [of parsedV parsedACD "[''x'', ''v'']" "''version''"] by blast
  then have version: "fst (IsSet ?c ''version'') = False" by (simp add: vis)
  have "fst (IsSet ?c ''a'') = (''a'' \<in> Visit parsedV)"
    using IsSet_spec [of parsedV parsedACD "[''x'', ''v'']" "''a''"] by blast
  then have a: "fst (IsSet ?c ''a'') = False" by (simp add: vis)
  have same: "snd (IsSet ?c ''v'') = ?c"
    using IsSet_spec [of parsedV parsedACD "[''x'', ''v'']" "''v''"] by blast
  have "IsSet (?d\<lparr>flagSet := parsedACD\<rparr>) ''a''
        = (visitedTable parsedV ''a'' = Some True, ?d\<lparr>flagSet := parsedACD\<rparr>)"
    using IsSet_spec [of parsedV parsedACD "[]" "''a''" ?d "visitedTable parsedV" parsedACD] cached
    by blast
  then have stale: "IsSet (?d\<lparr>flagSet := parsedACD\<rparr>) ''a'' = (False, ?d\<lparr>flagSet := parsedACD\<rparr>)"
    by (simp add: visitedTable_def vis)
  from v version a same stale show ?thesis by simp
qed

section \<open>Typed accessors\<close>

text \<open>
  The accessors that read a value through its rendering never panic: HOL functions are
  total, and their definitions have no panic branch. A name the flag set does not define
  yields the zero value of the kind, and so does a rendering the kind cannot parse, but
  for \<open>lookupBoolT\<close>, which yields true for a present flag that does not parse.
\<close>

lemma scalar_lookups:
  "(formal fs name = None \<longrightarrow>
      lookupInt V name fs = 0 \<and> lookupFloat64 P V name fs = 0 \<and> lookupBool V name fs = False
      \<and> lookupBoolT V name fs = False \<and> lookupString V name fs = ''''
      \<and> lookupStringSlice name fs = Inr [] \<and> lookupIntSlice name fs = Inr [])
   \<and> (formal fs name = Some v \<longrightarrow>
      lookupString V name fs = Value_String V v
      \<and> (Atoi (Value_String V v) = None \<longrightarrow> lookupInt V name fs = 0)
      \<and> (P (Value_String V v) = None \<longrightarrow> lookupFloat64 P V name fs = 0)
      \<and> (ParseBool (Value_String V v) = None \<longrightarrow>
            lookupBool V name fs = False \<and> lookupBoolT V name fs = True))"
  by (simp add: lookupInt_def lookupFloat64_def lookupBool_def lookupBoolT_def lookupString_def
      lookupStringSlice_def lookupIntSlice_def Lookup_def)

lemma slice_lookups:
  "(formal fs name = Some (StringSlice xs) \<longrightarrow> lookupStringSlice name fs = Inr xs)
   \<and> (formal fs name = Some (IntSlice ns) \<longrightarrow> lookupIntSlice name fs = Inr ns)
   \<and> (formal fs name = Some v \<and> (\<forall>xs. v \<noteq> StringSlice xs) \<longrightarrow>
          lookupStringSlice name fs = Inl TypeAssertionFailed)
   \<and> (formal fs name = Some v \<and> (\<forall>ns. v \<noteq> IntSlice ns) \<longrightarrow>
          lookupIntSlice name fs = Inl TypeAssertionFailed)"
  by (cases v) (simp_all add: lookupStringSlice_def lookupIntSlice_def Lookup_def)

text \<open>
  C4 at the input where the code departs from it. In the flag set \<open>parsedACD\<close> the name
  \<open>a\<close> is a boolean flag. \<open>c.Bool("a")\<close> reads it; \<open>c.StringSlice("a")\<close> and
  \<open>c.IntSlice("a")\<close> (and their global forms) panic on the type assertion, where the claim,
  and the doc comment of \<open>StringSlice\<close> ("returns nil if no string slice flag exists"),
  promise the zero value.
\<close>

theorem slice_accessor_panics:
  "Context_Bool stdMethods (NewContext parsedACD parsedACD) ''a'' = True
   \<and> Context_Int stdMethods (NewContext parsedACD parsedACD) ''a'' = 0
   \<and> Context_StringSlice (NewContext parsedACD parsedACD) ''a'' = Inl TypeAssertionFailed
   \<and> Context_IntSlice (NewContext parsedACD parsedACD) ''a'' = Inl TypeAssertionFailed
   \<and> Context_GlobalStringSlice (NewContext parsedACD parsedACD) ''a'' = Inl TypeAssertionFailed
   \<and> Context_GlobalIntSlice (NewContext parsedACD parsedACD) ''a'' = Inl TypeAssertionFailed
   \<and> Context_StringSlice (NewContext parsedACD parsedACD) ''missing'' = Inr []"
  by (simp add: Context_Bool_def Context_Int_def Context_StringSlice_def Context_IntSlice_def
      Context_GlobalStringSlice_def Context_GlobalIntSlice_def NewContext_def lookupBool_def
      lookupInt_def lookupStringSlice_def lookupIntSlice_def Lookup_def parsedACD_def
      stdMethods_def FormatBool_def ParseBool_def Atoi_def isDigit_def)

section \<open>Runs of the application\<close>

lemma hasFlag_iff: "hasFlag a flag \<longleftrightarrow> flag \<in> set (Flags a)"
  by (auto simp: hasFlag_def list_ex_iff)

lemma Flags_appendFlag:
  "Flags (appendFlag a flag) = Flags a @ (if flag \<in> set (Flags a) then [] else [flag])"
  by (simp add: appendFlag_def hasFlag_iff)

lemma Run_register_Flags:
  "Flags (Run_register E a) =
     Flags a @ (if BoolFlag ''version, v'' ''print the version'' \<in> set (Flags a) then []
                else [BoolFlag ''version, v'' ''print the version''])
             @ (if BoolFlag ''help, h'' ''show help'' \<in> set (Flags a) then []
                else [BoolFlag ''help, h'' ''show help''])"
  by (simp add: Run_register_def Let_def Flags_appendFlag)

lemma Run_register_hooks:
  "Before (Run_register E a) = Before a \<and> Action (Run_register E a) = Action a
   \<and> App_Name (Run_register E a) = App_Name a"
  by (simp add: Run_register_def Let_def appendFlag_def)

lemma Run_app_after: "app_after (Run E a arguments) = Run_register E a"
  by (simp add: Run_def Let_def Run_dispatch_def
      split: prod.splits option.splits sum.splits if_splits)

lemma Run_trace_head:
  "\<exists>rest. trace (Run E a arguments) = CallFlagSet (Flags (Run_register E a)) # rest"
  by (simp add: Run_def Let_def Run_dispatch_def
      split: prod.splits option.splits sum.splits if_splits)

lemmas outcome_defs =
  HelpHandled_def VersionHandled_def Dispatched_def HookCalled_def HelpRendered_def outcomes_def

lemma Run_empty:
  "Run E a [] = \<lparr>app_after = Run_register E a, trace = [CallFlagSet (Flags (Run_register E a))],
                 returned = Inl SliceBoundsOutOfRange\<rparr>"
  by (simp add: Run_def Let_def)

lemma Run_conflict:
  assumes "arguments \<noteq> []" and "Run_normalize E a arguments = (Some nerr, fs)"
  shows "Run E a arguments =
    \<lparr>app_after = Run_register E a,
     trace = [CallFlagSet (Flags (Run_register E a)), Println (Error nerr), ShowAppHelp, Println ''''],
     returned = Inr (Some nerr)\<rparr>"
  using assms by (simp add: Run_def Let_def)

lemma Run_syntax_error:
  assumes "arguments \<noteq> []" and "Run_normalize E a arguments = (None, fs)"
    and "fst (Run_parse E a arguments) = Some err"
  shows "Run E a arguments =
    \<lparr>app_after = Run_register E a,
     trace = [CallFlagSet (Flags (Run_register E a)), Println ''Incorrect Usage.'', Println '''',
              ShowAppHelp, Println ''''],
     returned = Inr (Some err)\<rparr>"
  using assms by (simp add: Run_def Let_def)

lemma Run_help:
  assumes "arguments \<noteq> []" and "Run_normalize E a arguments = (None, fs)"
    and "fst (Run_parse E a arguments) = None" and "checkHelp E (NewContext fs fs)"
  shows "Run E a arguments =
    \<lparr>app_after = Run_register E a,
     trace = [CallFlagSet (Flags (Run_register E a)), CheckHelp True],
     returned = Inr None\<rparr>"
  using assms by (simp add: Run_def Let_def)

lemma Run_version:
  assumes "arguments \<noteq> []" and "Run_normalize E a arguments = (None, fs)"
    and "fst (Run_parse E a arguments) = None" and "\<not> checkHelp E (NewContext fs fs)"
    and "checkVersion E (NewContext fs fs)"
  shows "Run E a arguments =
    \<lparr>app_after = Run_register E a,
     trace = [CallFlagSet (Flags (Run_register E a)), CheckHelp False, CheckVersion True],
     returned = Inr None\<rparr>"
  using assms by (simp add: Run_def Let_def)

lemma Run_hook_fails:
  assumes "arguments \<noteq> []" and "Run_normalize E a arguments = (None, fs)"
    and "fst (Run_parse E a arguments) = None" and "\<not> checkHelp E (NewContext fs fs)"
    and "\<not> checkVersion E (NewContext fs fs)"
    and "Before a = Some before" and "before (NewContext fs fs) = Some err"
  shows "Run E a arguments =
    \<lparr>app_after = Run_register E a,
     trace = [CallFlagSet (Flags (Run_register E a)), CheckHelp False, CheckVersion False, CallBefore],
     returned = Inr (Some err)\<rparr>"
  using assms by (simp add: Run_def Let_def Run_register_hooks)

lemma Run_dispatch_outcome:
  "\<not> list_ex (\<lambda>e. case e of RunCommand c \<Rightarrow> True | CallAction \<Rightarrow> True | _ \<Rightarrow> False) tr \<Longrightarrow>
   Dispatched (Run_dispatch E a context tr) \<longleftrightarrow>
     (Present (Context_Args context)
        \<and> App_Command E a (hd (Context_Args context)) \<noteq> None)
     \<or> Action a \<noteq> None"
  by (cases "Context_Args context")
     (auto simp: Run_dispatch_def Dispatched_def Present_def First_def Get_def
       split: option.splits)

lemma Run_dispatch_others:
  "HelpHandled (Run_dispatch E a context tr) = list_ex (\<lambda>e. case e of CheckHelp b \<Rightarrow> b | _ \<Rightarrow> False) tr
   \<and> VersionHandled (Run_dispatch E a context tr)
       = list_ex (\<lambda>e. case e of CheckVersion b \<Rightarrow> b | _ \<Rightarrow> False) tr"
  by (cases "Context_Args context")
     (auto simp: Run_dispatch_def HelpHandled_def VersionHandled_def Present_def First_def Get_def
       split: option.splits)

lemma Run_passes_hook:
  assumes "arguments \<noteq> []" and "Run_normalize E a arguments = (None, fs)"
    and "fst (Run_parse E a arguments) = None" and "\<not> checkHelp E (NewContext fs fs)"
    and "\<not> checkVersion E (NewContext fs fs)"
    and "Before a = None \<or> (\<exists>before. Before a = Some before \<and> before (NewContext fs fs) = None)"
  shows "\<exists>tr. Run E a arguments = Run_dispatch E (Run_register E a) (NewContext fs fs) tr
          \<and> \<not> list_ex (\<lambda>e. case e of RunCommand c \<Rightarrow> True | CallAction \<Rightarrow> True | _ \<Rightarrow> False) tr
          \<and> \<not> list_ex (\<lambda>e. case e of CheckHelp b \<Rightarrow> b | _ \<Rightarrow> False) tr
          \<and> \<not> list_ex (\<lambda>e. case e of CheckVersion b \<Rightarrow> b | _ \<Rightarrow> False) tr"
  using assms by (auto simp: Run_def Let_def Run_register_hooks)

lemma Run_outcomes_le_1: "outcomes (Run E a arguments) \<le> 1"
proof (cases "arguments = []")
  case True
  then show ?thesis by (simp add: Run_empty outcome_defs)
next
  case False
  obtain nerr fs where n: "Run_normalize E a arguments = (nerr, fs)"
    by (cases "Run_normalize E a arguments")
  show ?thesis
  proof (cases nerr)
    case (Some e)
    with n have "Run_normalize E a arguments = (Some e, fs)" by simp
    from Run_conflict [OF False this] show ?thesis by (simp add: outcome_defs)
  next
    case None
    with n have n: "Run_normalize E a arguments = (None, fs)" by simp
    show ?thesis
    proof (cases "fst (Run_parse E a arguments)")
      case (Some e)
      from Run_syntax_error [OF False n Some] show ?thesis by (simp add: outcome_defs)
    next
      case ok: None
      show ?thesis
      proof (cases "checkHelp E (NewContext fs fs)")
        case True
        from Run_help [OF False n ok True] show ?thesis by (simp add: outcome_defs)
      next
        case noHelp: False
        show ?thesis
        proof (cases "checkVersion E (NewContext fs fs)")
          case True
          from Run_version [OF False n ok noHelp True] show ?thesis by (simp add: outcome_defs)
        next
          case noVersion: False
          show ?thesis
          proof (cases "\<exists>before err. Before a = Some before \<and> before (NewContext fs fs) = Some err")
            case True
            then obtain before err where "Before a = Some before"
              "before (NewContext fs fs) = Some err" by blast
            from Run_hook_fails [OF False n ok noHelp noVersion this]
            show ?thesis by (simp add: outcome_defs)
          next
            case False
            then have "Before a = None
                \<or> (\<exists>before. Before a = Some before \<and> before (NewContext fs fs) = None)"
              by (cases "Before a") auto
            from Run_passes_hook [OF \<open>arguments \<noteq> []\<close> n ok noHelp noVersion this]
            obtain tr where "Run E a arguments = Run_dispatch E (Run_register E a) (NewContext fs fs) tr"
              and "\<not> list_ex (\<lambda>e. case e of CheckHelp b \<Rightarrow> b | _ \<Rightarrow> False) tr"
              and "\<not> list_ex (\<lambda>e. case e of CheckVersion b \<Rightarrow> b | _ \<Rightarrow> False) tr"
              by blast
            then show ?thesis by (simp add: outcomes_def Run_dispatch_others)
          qed
        qed
      qed
    qed
  qed
qed

lemmas run_eval =
  Run_def Run_normalize_def Run_parse_def Run_register_def Run_dispatch_def App_Command_def
  appendFlag_def hasFlag_def demoPackage_def demoApp_def NewContext_def Context_GlobalBool_def
  Context_Args_def Present_def First_def Get_def lookupBool_def Error_def Let_def

text \<open>
  C6. When normalisation reports a conflict or the parser reports an error, \<open>Run\<close> renders
  the application's help and returns the error: the conflict if there is one, else the
  parser's error. It prints the conflict, or "Incorrect Usage." for a parser error. The
  hook, the commands and the default action are not called, and help and version are not
  checked.
\<close>

theorem Run_failure:
  assumes args: "arguments \<noteq> []"
    and failed: "fst (Run_normalize E a arguments) \<noteq> None \<or> fst (Run_parse E a arguments) \<noteq> None"
  shows "returned (Run E a arguments)
           = Inr (case fst (Run_normalize E a arguments) of
                    Some nerr \<Rightarrow> Some nerr
                  | None \<Rightarrow> fst (Run_parse E a arguments))
    \<and> returned (Run E a arguments) \<noteq> Inr None
    \<and> HelpRendered (Run E a arguments)
    \<and> (case fst (Run_normalize E a arguments) of
          Some nerr \<Rightarrow> trace (Run E a arguments) ! 1 = Println (Error nerr)
        | None \<Rightarrow> trace (Run E a arguments) ! 1 = Println ''Incorrect Usage.'')
    \<and> \<not> HookCalled (Run E a arguments) \<and> \<not> Dispatched (Run E a arguments)
    \<and> \<not> HelpHandled (Run E a arguments) \<and> \<not> VersionHandled (Run E a arguments)"
proof -
  obtain nerr fs where n: "Run_normalize E a arguments = (nerr, fs)"
    by (cases "Run_normalize E a arguments")
  show ?thesis
  proof (cases nerr)
    case (Some e)
    with n have "Run_normalize E a arguments = (Some e, fs)" by simp
    from Run_conflict [OF args this] this show ?thesis by (simp add: outcome_defs)
  next
    case None
    with n have n': "Run_normalize E a arguments = (None, fs)" by simp
    with failed obtain err where err: "fst (Run_parse E a arguments) = Some err" by auto
    from Run_syntax_error [OF args n' err] n' err show ?thesis by (simp add: outcome_defs)
  qed
qed

theorem Run_failure_witness:
  "fst (Run_normalize (demoPackage None parsedHH) demoApp [''prog'', ''-h'', ''--help''])
     = Some (errorString ''Cannot use two forms of the same flag: h help'')
   \<and> returned (Run (demoPackage None parsedHH) demoApp [''prog'', ''-h'', ''--help''])
       = Inr (Some (errorString ''Cannot use two forms of the same flag: h help''))
   \<and> HelpRendered (Run (demoPackage None parsedHH) demoApp [''prog'', ''-h'', ''--help''])
   \<and> \<not> Dispatched (Run (demoPackage None parsedHH) demoApp [''prog'', ''-h'', ''--help''])
   \<and> fst (Run_normalize (demoPackage (Some unknownFlag) parsedH) demoApp [''prog'', ''-h'', ''-bogus''])
       = None
   \<and> fst (Run_parse (demoPackage (Some unknownFlag) parsedH) demoApp [''prog'', ''-h'', ''-bogus''])
       = Some unknownFlag
   \<and> returned (Run (demoPackage (Some unknownFlag) parsedH) demoApp [''prog'', ''-h'', ''-bogus''])
       = Inr (Some unknownFlag)
   \<and> HelpRendered (Run (demoPackage (Some unknownFlag) parsedH) demoApp [''prog'', ''-h'', ''-bogus''])
   \<and> \<not> Dispatched (Run (demoPackage (Some unknownFlag) parsedH) demoApp [''prog'', ''-h'', ''-bogus''])"
proof -
  let ?E1 = "demoPackage None parsedHH" and ?args1 = "[''prog'', ''-h'', ''--help'']"
  let ?E2 = "demoPackage (Some unknownFlag) parsedH" and ?args2 = "[''prog'', ''-h'', ''-bogus'']"
  have n1: "fst (Run_normalize ?E1 demoApp ?args1)
     = Some (errorString ''Cannot use two forms of the same flag: h help'')"
    by (simp add: run_eval eval_simps parsedHH_def)
  have n2: "fst (Run_normalize ?E2 demoApp ?args2) = None"
    by (simp add: run_eval eval_simps parsedH_def)
  have p2: "fst (Run_parse ?E2 demoApp ?args2) = Some unknownFlag"
    by (simp add: Run_parse_def demoPackage_def)
  from Run_failure [of ?args1 ?E1 demoApp] n1
  have r1: "returned (Run ?E1 demoApp ?args1)
       = Inr (Some (errorString ''Cannot use two forms of the same flag: h help''))
     \<and> HelpRendered (Run ?E1 demoApp ?args1) \<and> \<not> Dispatched (Run ?E1 demoApp ?args1)"
    by simp
  from Run_failure [of ?args2 ?E2 demoApp] n2 p2
  have r2: "returned (Run ?E2 demoApp ?args2) = Inr (Some unknownFlag)
     \<and> HelpRendered (Run ?E2 demoApp ?args2) \<and> \<not> Dispatched (Run ?E2 demoApp ?args2)"
    by simp
  from n1 n2 p2 r1 r2 show ?thesis by simp
qed

text \<open>
  C5, as the code has it. In a run whose parse reports no error and whose normalisation
  succeeds, help is checked first: if \<open>checkHelp\<close> handles the run, \<open>Run\<close> returns nil
  without asking \<open>checkVersion\<close>; if \<open>checkVersion\<close> handles it, \<open>Run\<close> returns nil; in both
  cases neither the hook nor a command nor the default action is called, and exactly one
  outcome is reached. Otherwise the run reaches the dispatch when the hook is absent or
  returns nil (and a default action exists), and no outcome when the hook fails. No run
  reaches more than one of the three outcomes.
\<close>

theorem Run_help_before_version:
  assumes args: "arguments \<noteq> []"
    and norm: "Run_normalize E a arguments = (None, fs)"
    and parse: "fst (Run_parse E a arguments) = None"
  shows "(checkHelp E (NewContext fs fs) \<longrightarrow>
            Run E a arguments
              = \<lparr>app_after = Run_register E a,
                 trace = [CallFlagSet (Flags (Run_register E a)), CheckHelp True],
                 returned = Inr None\<rparr>
            \<and> HelpHandled (Run E a arguments) \<and> \<not> VersionHandled (Run E a arguments))
    \<and> (\<not> checkHelp E (NewContext fs fs) \<and> checkVersion E (NewContext fs fs) \<longrightarrow>
            Run E a arguments
              = \<lparr>app_after = Run_register E a,
                 trace = [CallFlagSet (Flags (Run_register E a)), CheckHelp False, CheckVersion True],
                 returned = Inr None\<rparr>
            \<and> VersionHandled (Run E a arguments) \<and> \<not> HelpHandled (Run E a arguments))
    \<and> (checkHelp E (NewContext fs fs) \<or> checkVersion E (NewContext fs fs) \<longrightarrow>
            returned (Run E a arguments) = Inr None
            \<and> \<not> HookCalled (Run E a arguments) \<and> \<not> Dispatched (Run E a arguments)
            \<and> outcomes (Run E a arguments) = 1)
    \<and> (\<not> checkHelp E (NewContext fs fs) \<and> \<not> checkVersion E (NewContext fs fs)
          \<and> (Before a = None \<or> (\<exists>before. Before a = Some before \<and> before (NewContext fs fs) = None))
          \<and> Action a \<noteq> None \<longrightarrow>
            Dispatched (Run E a arguments) \<and> outcomes (Run E a arguments) = 1)
    \<and> (\<not> checkHelp E (NewContext fs fs) \<and> \<not> checkVersion E (NewContext fs fs)
          \<and> (\<exists>before err. Before a = Some before \<and> before (NewContext fs fs) = Some err) \<longrightarrow>
            outcomes (Run E a arguments) = 0 \<and> returned (Run E a arguments) \<noteq> Inr None)
    \<and> outcomes (Run E a arguments) \<le> 1"
proof -
  have helped: "checkHelp E (NewContext fs fs) \<longrightarrow>
            Run E a arguments
              = \<lparr>app_after = Run_register E a,
                 trace = [CallFlagSet (Flags (Run_register E a)), CheckHelp True],
                 returned = Inr None\<rparr>
            \<and> HelpHandled (Run E a arguments) \<and> \<not> VersionHandled (Run E a arguments)"
    using Run_help [OF args norm parse] by (simp add: outcome_defs)
  have versioned: "\<not> checkHelp E (NewContext fs fs) \<and> checkVersion E (NewContext fs fs) \<longrightarrow>
            Run E a arguments
              = \<lparr>app_after = Run_register E a,
                 trace = [CallFlagSet (Flags (Run_register E a)), CheckHelp False, CheckVersion True],
                 returned = Inr None\<rparr>
            \<and> VersionHandled (Run E a arguments) \<and> \<not> HelpHandled (Run E a arguments)"
    using Run_version [OF args norm parse] by (simp add: outcome_defs)
  have either: "checkHelp E (NewContext fs fs) \<or> checkVersion E (NewContext fs fs) \<longrightarrow>
            returned (Run E a arguments) = Inr None
            \<and> \<not> HookCalled (Run E a arguments) \<and> \<not> Dispatched (Run E a arguments)
            \<and> outcomes (Run E a arguments) = 1"
  proof (cases "checkHelp E (NewContext fs fs)")
    case True
    with Run_help [OF args norm parse] show ?thesis by (simp add: outcome_defs)
  next
    case False
    with Run_version [OF args norm parse] show ?thesis by (auto simp: outcome_defs)
  qed
  have dispatch: "\<not> checkHelp E (NewContext fs fs) \<and> \<not> checkVersion E (NewContext fs fs)
          \<and> (Before a = None \<or> (\<exists>before. Before a = Some before \<and> before (NewContext fs fs) = None))
          \<and> Action a \<noteq> None \<longrightarrow>
            Dispatched (Run E a arguments) \<and> outcomes (Run E a arguments) = 1"
  proof (intro impI)
    assume h: "\<not> checkHelp E (NewContext fs fs) \<and> \<not> checkVersion E (NewContext fs fs)
          \<and> (Before a = None \<or> (\<exists>before. Before a = Some before \<and> before (NewContext fs fs) = None))
          \<and> Action a \<noteq> None"
    then have "Before a = None \<or> (\<exists>before. Before a = Some before \<and> before (NewContext fs fs) = None)"
      by blast
    from Run_passes_hook [OF args norm parse _ _ this] h
    obtain tr where run: "Run E a arguments = Run_dispatch E (Run_register E a) (NewContext fs fs) tr"
      and tr: "\<not> list_ex (\<lambda>e. case e of RunCommand c \<Rightarrow> True | CallAction \<Rightarrow> True | _ \<Rightarrow> False) tr"
        "\<not> list_ex (\<lambda>e. case e of CheckHelp b \<Rightarrow> b | _ \<Rightarrow> False) tr"
        "\<not> list_ex (\<lambda>e. case e of CheckVersion b \<Rightarrow> b | _ \<Rightarrow> False) tr"
      by blast
    from h have "Action (Run_register E a) \<noteq> None" by (simp add: Run_register_hooks)
    with Run_dispatch_outcome [OF tr(1), of E "Run_register E a" "NewContext fs fs"]
    have d: "Dispatched (Run E a arguments)" by (simp add: run)
    with tr(2,3) show "Dispatched (Run E a arguments) \<and> outcomes (Run E a arguments) = 1"
      by (simp add: outcomes_def run Run_dispatch_others)
  qed
  have hook: "\<not> checkHelp E (NewContext fs fs) \<and> \<not> checkVersion E (NewContext fs fs)
          \<and> (\<exists>before err. Before a = Some before \<and> before (NewContext fs fs) = Some err) \<longrightarrow>
            outcomes (Run E a arguments) = 0 \<and> returned (Run E a arguments) \<noteq> Inr None"
  proof (intro impI)
    assume h: "\<not> checkHelp E (NewContext fs fs) \<and> \<not> checkVersion E (NewContext fs fs)
          \<and> (\<exists>before err. Before a = Some before \<and> before (NewContext fs fs) = Some err)"
    then obtain before err where b: "Before a = Some before" "before (NewContext fs fs) = Some err"
      by blast
    from h Run_hook_fails [OF args norm parse _ _ b]
    show "outcomes (Run E a arguments) = 0 \<and> returned (Run E a arguments) \<noteq> Inr None"
      by (simp add: outcome_defs)
  qed
  show ?thesis
    by (rule conjI [OF helped conjI [OF versioned conjI [OF either conjI [OF dispatch
          conjI [OF hook Run_outcomes_le_1]]]]])
qed

theorem Run_help_before_version_witness:
  "Run_normalize (demoPackage None parsedHV) demoApp [''prog'', ''-h'', ''-v'']
     = (None, snd (Run_normalize (demoPackage None parsedHV) demoApp [''prog'', ''-h'', ''-v'']))
   \<and> lookupBool stdMethods ''version''
        (snd (Run_normalize (demoPackage None parsedHV) demoApp [''prog'', ''-h'', ''-v'']))
   \<and> Run (demoPackage None parsedHV) demoApp [''prog'', ''-h'', ''-v'']
       = \<lparr>app_after = Run_register (demoPackage None parsedHV) demoApp,
          trace = [CallFlagSet [BoolFlag ''version, v'' ''print the version'',
                                BoolFlag ''help, h'' ''show help''], CheckHelp True],
          returned = Inr None\<rparr>
   \<and> outcomes (Run (demoPackage None parsedHV) demoApp [''prog'', ''-h'', ''-v'']) = 1
   \<and> trace (Run (demoPackage None parsedV) demoApp [''prog'', ''-v''])
       = [CallFlagSet [BoolFlag ''version, v'' ''print the version'',
                       BoolFlag ''help, h'' ''show help''], CheckHelp False, CheckVersion True]
   \<and> Dispatched (Run (demoPackage None parsedNone) demoApp [''prog''])
   \<and> outcomes (Run (demoPackage None parsedNone) demoApp [''prog'']) = 1
   \<and> outcomes (Run (demoPackage None parsedNone) (demoApp\<lparr>Before := Some (\<lambda>c. Some hookError)\<rparr>)
                 [''prog'']) = 0"
proof -
  let ?E = "demoPackage None parsedHV" and ?args = "[''prog'', ''-h'', ''-v'']"
  let ?fs = "snd (Run_normalize ?E demoApp ?args)"
  have flags: "Flags (Run_register ?E demoApp)
      = [BoolFlag ''version, v'' ''print the version'', BoolFlag ''help, h'' ''show help'']"
    by (simp add: Run_register_Flags) (simp add: demoApp_def)
  have norm: "Run_normalize ?E demoApp ?args = (None, ?fs)"
    by (simp add: run_eval eval_simps parsedHV_def)
  have parse: "fst (Run_parse ?E demoApp ?args) = None"
    by (simp add: Run_parse_def demoPackage_def)
  have helped: "checkHelp ?E (NewContext ?fs ?fs)"
    by (simp add: run_eval eval_simps parsedHV_def)
  have versioned: "lookupBool stdMethods ''version'' ?fs"
    by (simp add: run_eval eval_simps parsedHV_def)
  have ne: "?args \<noteq> []" by simp
  from Run_help_before_version [OF ne norm parse] helped
  have r1: "Run ?E demoApp ?args
       = \<lparr>app_after = Run_register ?E demoApp,
          trace = [CallFlagSet (Flags (Run_register ?E demoApp)), CheckHelp True],
          returned = Inr None\<rparr>"
    and o1: "outcomes (Run ?E demoApp ?args) = 1"
    by blast+
  let ?E2 = "demoPackage None parsedV" and ?args2 = "[''prog'', ''-v'']"
  let ?fs2 = "snd (Run_normalize ?E2 demoApp ?args2)"
  have flags2: "Flags (Run_register ?E2 demoApp)
      = [BoolFlag ''version, v'' ''print the version'', BoolFlag ''help, h'' ''show help'']"
    by (simp add: Run_register_Flags) (simp add: demoApp_def)
  have norm2: "Run_normalize ?E2 demoApp ?args2 = (None, ?fs2)"
    by (simp add: run_eval eval_simps parsedV_def)
  have parse2: "fst (Run_parse ?E2 demoApp ?args2) = None"
    by (simp add: Run_parse_def demoPackage_def)
  have checks2: "\<not> checkHelp ?E2 (NewContext ?fs2 ?fs2) \<and> checkVersion ?E2 (NewContext ?fs2 ?fs2)"
    by (simp add: run_eval eval_simps parsedV_def)
  have ne2: "?args2 \<noteq> []" by simp
  from Run_help_before_version [OF ne2 norm2 parse2] checks2
  have "Run ?E2 demoApp ?args2
       = \<lparr>app_after = Run_register ?E2 demoApp,
          trace = [CallFlagSet (Flags (Run_register ?E2 demoApp)), CheckHelp False, CheckVersion True],
          returned = Inr None\<rparr>"
    by blast
  then have r2: "trace (Run ?E2 demoApp ?args2)
       = [CallFlagSet (Flags (Run_register ?E2 demoApp)), CheckHelp False, CheckVersion True]"
    by simp
  let ?E3 = "demoPackage None parsedNone" and ?args3 = "[''prog'']"
  let ?fs3 = "snd (Run_normalize ?E3 demoApp ?args3)"
  have norm3: "Run_normalize ?E3 demoApp ?args3 = (None, ?fs3)"
    by (simp add: run_eval eval_simps parsedNone_def)
  have parse3: "fst (Run_parse ?E3 demoApp ?args3) = None"
    by (simp add: Run_parse_def demoPackage_def)
  have checks3: "\<not> checkHelp ?E3 (NewContext ?fs3 ?fs3) \<and> \<not> checkVersion ?E3 (NewContext ?fs3 ?fs3)"
    by (simp add: run_eval eval_simps parsedNone_def)
  have app3: "Before demoApp = None \<and> Action demoApp \<noteq> None"
    by (simp add: demoApp_def)
  have ne3: "?args3 \<noteq> []" by simp
  from Run_help_before_version [OF ne3 norm3 parse3] checks3 app3
  have r3: "Dispatched (Run ?E3 demoApp ?args3) \<and> outcomes (Run ?E3 demoApp ?args3) = 1"
    by blast
  let ?a4 = "demoApp\<lparr>Before := Some (\<lambda>c. Some hookError)\<rparr>"
  let ?fs4 = "snd (Run_normalize ?E3 ?a4 ?args3)"
  have norm4: "Run_normalize ?E3 ?a4 ?args3 = (None, ?fs4)"
    by (simp add: run_eval eval_simps parsedNone_def)
  have parse4: "fst (Run_parse ?E3 ?a4 ?args3) = None"
    by (simp add: Run_parse_def demoPackage_def)
  have checks4: "\<not> checkHelp ?E3 (NewContext ?fs4 ?fs4) \<and> \<not> checkVersion ?E3 (NewContext ?fs4 ?fs4)"
    by (simp add: run_eval eval_simps parsedNone_def)
  have hook4: "\<exists>before err. Before ?a4 = Some before
      \<and> before (NewContext ?fs4 ?fs4) = Some err"
    by simp
  from Run_help_before_version [OF ne3 norm4 parse4] checks4 hook4
  have r4: "outcomes (Run ?E3 ?a4 ?args3) = 0"
    by blast
  from norm versioned r1 [unfolded flags] o1 r2 [unfolded flags2] r3 r4 show ?thesis
    by blast
qed

text \<open>
  The claim as stated fails. After \<open>-h -bogus\<close> normalisation succeeds and the help flag
  is set, but the parser's error makes \<open>Run\<close> return that error before help is checked:
  the run does not end successfully and reaches none of the three outcomes. A failing hook
  also ends a run, with no parser error, in none of them.
\<close>

theorem Run_exactly_one_counterexample:
  "fst (Run_normalize (demoPackage (Some unknownFlag) parsedH) demoApp [''prog'', ''-h'', ''-bogus''])
     = None
   \<and> ''h'' \<in> Visit parsedH
   \<and> lookupBool stdMethods ''help''
        (snd (Run_normalize (demoPackage (Some unknownFlag) parsedH) demoApp
                [''prog'', ''-h'', ''-bogus'']))
   \<and> returned (Run (demoPackage (Some unknownFlag) parsedH) demoApp [''prog'', ''-h'', ''-bogus''])
       = Inr (Some unknownFlag)
   \<and> \<not> HelpHandled (Run (demoPackage (Some unknownFlag) parsedH) demoApp
                        [''prog'', ''-h'', ''-bogus''])
   \<and> outcomes (Run (demoPackage (Some unknownFlag) parsedH) demoApp [''prog'', ''-h'', ''-bogus''])
       = 0
   \<and> fst (Run_normalize (demoPackage None parsedNone)
            (demoApp\<lparr>Before := Some (\<lambda>c. Some hookError)\<rparr>) [''prog'']) = None
   \<and> fst (Run_parse (demoPackage None parsedNone)
            (demoApp\<lparr>Before := Some (\<lambda>c. Some hookError)\<rparr>) [''prog'']) = None
   \<and> returned (Run (demoPackage None parsedNone)
            (demoApp\<lparr>Before := Some (\<lambda>c. Some hookError)\<rparr>) [''prog'']) = Inr (Some hookError)
   \<and> outcomes (Run (demoPackage None parsedNone)
            (demoApp\<lparr>Before := Some (\<lambda>c. Some hookError)\<rparr>) [''prog'']) = 0"
  by (simp add: run_eval eval_simps outcome_defs parsedH_def parsedNone_def)

text \<open>
  C7, as the code has it. \<open>Run\<close> appends the implicit flags \<open>version, v\<close> and \<open>help, h\<close>
  (in that order) before it builds the flag set and parses, each only when the
  application's flag list does not already hold an equal definition, that is the boolean
  flag with the same name string and the same usage text. Both are in the list afterwards,
  and a definition that was there is not there more often than before.
\<close>

theorem Run_registers_implicit_flags:
  "Flags (app_after (Run E a arguments))
     = Flags a
       @ (if BoolFlag ''version, v'' ''print the version'' \<in> set (Flags a) then []
          else [BoolFlag ''version, v'' ''print the version''])
       @ (if BoolFlag ''help, h'' ''show help'' \<in> set (Flags a) then []
          else [BoolFlag ''help, h'' ''show help''])
   \<and> (\<exists>rest. trace (Run E a arguments) = CallFlagSet (Flags (app_after (Run E a arguments))) # rest)
   \<and> count_list (Flags (app_after (Run E a arguments))) (BoolFlag ''version, v'' ''print the version'')
       = max 1 (count_list (Flags a) (BoolFlag ''version, v'' ''print the version''))
   \<and> count_list (Flags (app_after (Run E a arguments))) (BoolFlag ''help, h'' ''show help'')
       = max 1 (count_list (Flags a) (BoolFlag ''help, h'' ''show help''))"
proof -
  let ?v = "BoolFlag ''version, v'' ''print the version''"
  let ?h = "BoolFlag ''help, h'' ''show help''"
  have flags: "Flags (app_after (Run E a arguments))
     = Flags a @ (if ?v \<in> set (Flags a) then [] else [?v])
               @ (if ?h \<in> set (Flags a) then [] else [?h])"
    by (simp add: Run_app_after Run_register_Flags)
  have head: "\<exists>rest. trace (Run E a arguments)
                     = CallFlagSet (Flags (app_after (Run E a arguments))) # rest"
    using Run_trace_head [of E a arguments] by (simp add: Run_app_after)
  have present: "\<And>x xs. x \<in> set xs \<Longrightarrow> max (Suc 0) (count_list xs x) = count_list xs x"
  proof -
    fix x :: 'k and xs
    assume "x \<in> set xs"
    then have "count_list xs x \<noteq> 0" by (simp add: count_list_0_iff)
    then show "max (Suc 0) (count_list xs x) = count_list xs x" by simp
  qed
  have absent: "\<And>x xs. x \<notin> set xs \<Longrightarrow> count_list xs x = 0"
    by (simp add: count_list_0_iff)
  have cv: "count_list (Flags (app_after (Run E a arguments))) ?v = max 1 (count_list (Flags a) ?v)"
    by (cases "?v \<in> set (Flags a)") (simp_all add: flags present absent)
  have ch: "count_list (Flags (app_after (Run E a arguments))) ?h = max 1 (count_list (Flags a) ?h)"
    by (cases "?h \<in> set (Flags a)") (simp_all add: flags present absent)
  show ?thesis
    by (rule conjI [OF flags conjI [OF head conjI [OF cv ch]]])
qed

theorem Run_registers_implicit_flags_witness:
  "Flags (app_after (Run (demoPackage None parsedNone) demoApp [''prog'']))
     = [BoolFlag ''version, v'' ''print the version'', BoolFlag ''help, h'' ''show help'']
   \<and> Flags (app_after (Run (demoPackage None parsedNone)
        (demoApp\<lparr>Flags := [BoolFlag ''help, h'' ''show help'']\<rparr>) [''prog'']))
     = [BoolFlag ''help, h'' ''show help'', BoolFlag ''version, v'' ''print the version'']"
  using Run_registers_implicit_flags [of "demoPackage None parsedNone" demoApp "[''prog'']"]
    Run_registers_implicit_flags [of "demoPackage None parsedNone"
      "demoApp\<lparr>Flags := [BoolFlag ''help, h'' ''show help'']\<rparr>" "[''prog'']"]
  by (simp add: demoApp_def)

text \<open>
  The claim as stated fails: the test is equality of the whole definition, not of the
  names. A caller who registered a flag named \<open>help, h\<close> with a usage text of their own
  gets the implicit flag appended as well, and the list then names \<open>help, h\<close> twice.
\<close>

theorem Run_duplicate_names_counterexample:
  "map getName (Flags (demoApp\<lparr>Flags := [BoolFlag ''help, h'' ''explain the options'']\<rparr>))
     = [''help, h'']
   \<and> map getName (Flags (app_after (Run (demoPackage None parsedNone)
        (demoApp\<lparr>Flags := [BoolFlag ''help, h'' ''explain the options'']\<rparr>) [''prog''])))
     = [''help, h'', ''version, v'', ''help, h'']
   \<and> \<not> distinct (map getName (Flags (app_after (Run (demoPackage None parsedNone)
        (demoApp\<lparr>Flags := [BoolFlag ''help, h'' ''explain the options'']\<rparr>) [''prog'']))))"
  by (simp add: Run_app_after Run_register_Flags demoApp_def)

end
